theory Spec2Isabelle
  imports Complex_Main "HOL-Library.Multiset" "HOL-Library.Word"
begin

section \<open>Data model\<close>

text \<open>
  The flight network of \<^verbatim>\<open>FlightManagementSystem\<close>. The classes \<^verbatim>\<open>Graph\<close>, \<^verbatim>\<open>Vertex\<close>,
  \<^verbatim>\<open>Edge\<close> and \<^verbatim>\<open>Airport\<close> are used by \<^verbatim>\<open>FlightManagementSystem.cpp\<close> through their
  accessors only; the records below hold what those accessors return. An edge's destination
  is a \<^verbatim>\<open>Vertex*\<close> in the source and the airport code of that vertex here.

  A finite \<^verbatim>\<open>double\<close> is the real number it stands for, and two doubles compare as these
  numbers do. The sum of two doubles is rounded, so it is not the sum of the two numbers: the
  functions that add doubles take the addition of the machine as a parameter \<open>add\<close>, of which
  nothing is assumed.

  The ways a call can go wrong: a lookup that finds nothing, a read past the end of a vector,
  the use of a pointer or iterator that refers to no object, and the overflow of a signed
  \<^verbatim>\<open>int\<close>.
\<close>

datatype error = NotFound | OutOfRange | BadDereference | SignedOverflow

record Edge =
  dest :: string
  airline :: string
  distance :: real

record Vertex =
  info :: string
  adj :: "Edge list"

type_synonym Graph = "Vertex list"

record Airport =
  name :: string
  city :: string
  country :: string

text \<open>
  The two members of the class the queries read: the \<^verbatim>\<open>unordered_map\<close> of airports, used for
  lookups by key only, and the graph of flights.
\<close>

record FlightManagementSystem =
  airports :: "string \<rightharpoonup> Airport"
  flights :: Graph

text \<open>
  A \<^verbatim>\<open>Route\<close> is the struct of \<^verbatim>\<open>FlightManagementSystem.h\<close>: source code, target code and the
  \<^verbatim>\<open>std::vector\<close> of airline codes of the hop, kept as a list because the vector has an order
  and may repeat a code. Its \<^verbatim>\<open>operator==\<close> compares the three fields, as equality of records
  does. An itinerary is a \<^verbatim>\<open>vector<Route>\<close>, a list of routes.
\<close>

record Route =
  source :: string
  target :: string
  airlines :: "string list"

section \<open>minimizeAirlines\<close>

text \<open>
  \<^verbatim>\<open>unordered_map<string, int> airlineCount\<close> is an association list with one entry per key.
  \<^verbatim>\<open>airlineCount[airline]++\<close> adds one to the entry of the key, creating it at zero first when
  the key is new. The counters are C++ \<^verbatim>\<open>int\<close>; they are bounded by the number of airline
  codes in the itinerary and are modelled as natural numbers.
\<close>

type_synonym AirlineCount = "(string \<times> nat) list"

fun increment :: "AirlineCount \<Rightarrow> string \<Rightarrow> AirlineCount" where
  "increment [] a = [(a, 1)]"
| "increment ((k, c) # m) a = (if k = a then (k, c + 1) # m else (k, c) # increment m a)"

text \<open>The counting pass: for each route, for each airline of the route, one increment.\<close>

definition countAirlines :: "Route list \<Rightarrow> AirlineCount" where
  "countAirlines routes = foldl (\<lambda>m route. foldl increment m (airlines route)) [] routes"

text \<open>The loop \<^verbatim>\<open>if (pair.second > maxCount) maxCount = pair.second\<close>, started at zero.\<close>

definition findMaxCount :: "AirlineCount \<Rightarrow> nat" where
  "findMaxCount entries = foldl (\<lambda>maxCount (a, c). if c > maxCount then c else maxCount) 0 entries"

text \<open>
  The order in which a range-for loop visits the entries of an \<^verbatim>\<open>unordered_map\<close> is that of the
  hash table and is not fixed by the source. It is the parameter \<open>enum\<close>: the function from the
  table (its entries in order of first insertion) to the sequence of entries the loop visits.
  The two passes over \<^verbatim>\<open>airlineCount\<close> visit the same unmodified table, hence the same sequence.
\<close>

definition minimizeAirlines :: "(AirlineCount \<Rightarrow> AirlineCount) \<Rightarrow> Route list \<Rightarrow> Route list" where
  "minimizeAirlines enum routes =
     (let airlineCount = countAirlines routes;
          entries = enum airlineCount;
          maxCount = findMaxCount entries;
          frequentAirlines = map fst (filter (\<lambda>(a, c). c = maxCount) entries)
      in if maxCount = length routes
         then map (\<lambda>route. route\<lparr>airlines := frequentAirlines\<rparr>) routes
         else routes)"

text \<open>An enumeration visits every entry of the table exactly once.\<close>

definition enumerates :: "(AirlineCount \<Rightarrow> AirlineCount) \<Rightarrow> bool" where
  "enumerates enum \<longleftrightarrow> (\<forall>m. mset (enum m) = mset m)"

text \<open>
  The quantities the statements about \<open>minimizeAirlines\<close> speak of: how often a code is listed
  in the whole itinerary, on how many hops it is listed, and the codes listed at all.
\<close>

definition occurrences :: "Route list \<Rightarrow> string \<Rightarrow> nat" where
  "occurrences routes a = count_list (concat (map airlines routes)) a"

definition hopsWith :: "Route list \<Rightarrow> string \<Rightarrow> nat" where
  "hopsWith routes a = length (filter (\<lambda>route. a \<in> set (airlines route)) routes)"

definition listed :: "Route list \<Rightarrow> string set" where
  "listed routes = set (concat (map airlines routes))"

definition maxOccurrences :: "Route list \<Rightarrow> nat" where
  "maxOccurrences routes = Max (insert 0 (occurrences routes ` listed routes))"

text \<open>A hop as the specification sees it: its two endpoints and its set of airline codes.\<close>

definition hop :: "Route \<Rightarrow> string \<times> string \<times> string set" where
  "hop route = (source route, target route, set (airlines route))"

text \<open>The count held for a code by the table, zero when the code has no entry.\<close>

definition cnt :: "AirlineCount \<Rightarrow> string \<Rightarrow> nat" where
  "cnt m a = (case map_of m a of None \<Rightarrow> 0 | Some c \<Rightarrow> c)"

section \<open>The graph primitives\<close>

text \<open>
  Modelled from the spec: \<^verbatim>\<open>Graph::findVertex\<close>, of \<^verbatim>\<open>Graph.cpp\<close>, whose body is missing.
  The specification says of the lookup that it ``fails with NotFound if the code is absent'':
  \<open>Inl NotFound\<close> is the outcome of a lookup that found no vertex, \<open>Inr v\<close> that of one that
  found \<open>v\<close>, the first vertex of the graph with the code.
\<close>

definition findVertex :: "Graph \<Rightarrow> string \<Rightarrow> error + Vertex" where
  "findVertex g code = (case find (\<lambda>v. info v = code) g of None \<Rightarrow> Inl NotFound | Some v \<Rightarrow> Inr v)"

text \<open>
  The codes an airport has an edge to, in adjacency order and one per edge, over the edges the
  traversal may use.
\<close>

definition neighbours :: "(Edge \<Rightarrow> bool) \<Rightarrow> Graph \<Rightarrow> string \<Rightarrow> string list" where
  "neighbours ok g code =
     (case findVertex g code of Inl e \<Rightarrow> [] | Inr v \<Rightarrow> map dest (filter ok (adj v)))"

text \<open>
  Modelled from the spec: the breadth-first layered search behind
  \<^verbatim>\<open>Graph::shortestPathsBFS\<close> (both overloads). ``At each
  layer, a vertex is enqueued the first time it is discovered'': the next layer holds the
  neighbours of the current layer that no earlier layer holds, each once.
\<close>

definition discovered :: "(Edge \<Rightarrow> bool) \<Rightarrow> Graph \<Rightarrow> string list \<Rightarrow> string list \<Rightarrow> string list" where
  "discovered ok g seen frontier =
     remdups (filter (\<lambda>w. w \<notin> set seen) (concat (map (neighbours ok g) frontier)))"

definition allDests :: "Graph \<Rightarrow> string set" where
  "allDests g = set (concat (map (\<lambda>v. map dest (adj v)) g))"

lemma findVertex_Inr: "findVertex g code = Inr v \<Longrightarrow> v \<in> set g \<and> info v = code"
  by (induction g) (auto simp: findVertex_def split: if_splits)

lemma neighbours_subset: "set (neighbours ok g code) \<subseteq> allDests g"
proof (cases "findVertex g code")
  case (Inl e)
  then show ?thesis by (simp add: neighbours_def)
next
  case (Inr v)
  then have "v \<in> set g" using findVertex_Inr by blast
  then show ?thesis using Inr by (auto simp: neighbours_def allDests_def)
qed

lemma discovered_subset: "set (discovered ok g seen frontier) \<subseteq> allDests g - set seen"
  using neighbours_subset by (auto simp: discovered_def)

function bfsLayers :: "(Edge \<Rightarrow> bool) \<Rightarrow> Graph \<Rightarrow> string list \<Rightarrow> string list \<Rightarrow> string list list" where
  "bfsLayers ok g seen frontier =
     (if frontier = [] then []
      else frontier # bfsLayers ok g (seen @ discovered ok g seen frontier)
                                     (discovered ok g seen frontier))"
  by pat_completeness auto
termination
proof (relation "measure (\<lambda>(ok, g, seen, frontier).
          2 * card (allDests g - set seen) + (if frontier = [] then 0 else 1))")
  show "wf (measure (\<lambda>(ok, g, seen, frontier).
          2 * card (allDests g - set seen) + (if frontier = [] then 0 else 1)))"
    by simp
next
  fix ok :: "Edge \<Rightarrow> bool" and g :: Graph and seen frontier :: "string list"
  assume ne: "frontier \<noteq> []"
  let ?next = "discovered ok g seen frontier"
  have fin: "finite (allDests g - set seen)" by (simp add: allDests_def)
  show "((ok, g, seen @ ?next, ?next), (ok, g, seen, frontier))
        \<in> measure (\<lambda>(ok, g, seen, frontier).
          2 * card (allDests g - set seen) + (if frontier = [] then 0 else 1))"
  proof (cases "?next = []")
    case True
    then show ?thesis using ne by simp
  next
    case False
    then obtain x where x: "x \<in> set ?next" by (cases ?next) auto
    then have xin: "x \<in> allDests g - set seen" using discovered_subset by blast
    have "allDests g - set (seen @ ?next) \<subset> allDests g - set seen"
      using x xin by auto
    then have "card (allDests g - set (seen @ ?next)) < card (allDests g - set seen)"
      using fin by (rule psubset_card_mono [rotated])
    then show ?thesis using ne by simp
  qed
qed

declare bfsLayers.simps [simp del]

text \<open>The distance from the source the search assigns to a code: the index of its layer.\<close>

fun levelOf :: "string list list \<Rightarrow> string \<Rightarrow> nat option" where
  "levelOf [] code = None"
| "levelOf (layer # layers) code =
     (if code \<in> set layer then Some 0 else map_option Suc (levelOf layers code))"

text \<open>
  Modelled from the spec: ``a backward reconstruction from destination that follows every edge
  (u, destination) where distance[u] + 1 == distance[destination], recursively''. Every edge
  is followed, so two parallel edges give the same airport sequence twice.
\<close>

definition predecessors :: "(Edge \<Rightarrow> bool) \<Rightarrow> Graph \<Rightarrow> string list list \<Rightarrow> nat \<Rightarrow> string \<Rightarrow> string list" where
  "predecessors ok g layers k code =
     concat (map (\<lambda>u. map (\<lambda>e. info u) (filter (\<lambda>e. ok e \<and> dest e = code) (adj u)))
                 (filter (\<lambda>u. levelOf layers (info u) = Some k) g))"

fun reconstruct :: "(Edge \<Rightarrow> bool) \<Rightarrow> Graph \<Rightarrow> string list list \<Rightarrow> string \<Rightarrow> nat \<Rightarrow> string \<Rightarrow> string list list" where
  "reconstruct ok g layers s 0 code = (if code = s then [[s]] else [])"
| "reconstruct ok g layers s (Suc k) code =
     concat (map (\<lambda>u. map (\<lambda>p. p @ [code]) (reconstruct ok g layers s k u))
                 (predecessors ok g layers k code))"

text \<open>
  Modelled from the spec: \<^verbatim>\<open>shortestPathSet(source, destination, allowedAirlines?)\<close>, the
  body of \<^verbatim>\<open>Graph::shortestPathsBFS\<close>. Both endpoints are looked up first (``all traversal
  entry points validate the presence of their seed vertex/vertices before starting'', an
  absent code being a \<open>NotFound\<close>); no path gives the empty result; a source equal to the
  destination is at distance zero and gives the one path that holds it alone.
\<close>

definition shortestPathSet :: "(Edge \<Rightarrow> bool) \<Rightarrow> Graph \<Rightarrow> string \<Rightarrow> string \<Rightarrow> error + string list list" where
  "shortestPathSet ok g s d =
     (case findVertex g s of Inl e \<Rightarrow> Inl e | Inr sv \<Rightarrow>
      (case findVertex g d of Inl e \<Rightarrow> Inl e | Inr dv \<Rightarrow>
       (let layers = bfsLayers ok g [s] [s]
        in case levelOf layers d of None \<Rightarrow> Inr [] | Some k \<Rightarrow> Inr (reconstruct ok g layers s k d))))"

definition shortestPathsBFS :: "Graph \<Rightarrow> string \<Rightarrow> string \<Rightarrow> error + string list list" where
  "shortestPathsBFS g s d = shortestPathSet (\<lambda>e. True) g s d"

text \<open>
  Modelled from the spec: the overload with a filter is ``restricted to edges whose airline is
  in allowedAirlines when that filter is supplied (empty/absent filter = no restriction)''.
\<close>

definition shortestPathsBFS_airlines :: "Graph \<Rightarrow> string \<Rightarrow> string \<Rightarrow> string list \<Rightarrow> error + string list list" where
  "shortestPathsBFS_airlines g s d selectedAirlines =
     shortestPathSet (\<lambda>e. selectedAirlines = [] \<or> airline e \<in> set selectedAirlines) g s d"

section \<open>findBestFlightOptions\<close>

text \<open>
  The inner loop of \<^verbatim>\<open>findBestFlightOptions\<close>: one \<^verbatim>\<open>Route\<close> per consecutive pair of the path,
  carrying the airline of every edge from the first airport of the pair to the second that
  passes the test \<open>keep\<close> (no test in the plain overload, membership in
  \<^verbatim>\<open>selectedAirlines\<close> in the other). The bound \<^verbatim>\<open>path.size() - 1\<close> is unsigned: on an empty path
  it wraps around and \<^verbatim>\<open>path[0]\<close> is read out of range. The \<^verbatim>\<open>Vertex*\<close> that \<^verbatim>\<open>findVertex\<close>
  returns is used untested (\<^verbatim>\<open>s->getAdj()\<close>): after a lookup that found no vertex the member is
  called through a pointer to no vertex.
\<close>

fun routePath :: "(string \<Rightarrow> bool) \<Rightarrow> Graph \<Rightarrow> string list \<Rightarrow> error + Route list" where
  "routePath keep g [] = Inl OutOfRange"
| "routePath keep g [a] = Inr []"
| "routePath keep g (a # b # rest) =
     (case findVertex g a of Inl e \<Rightarrow> Inl BadDereference | Inr s \<Rightarrow>
      (case routePath keep g (b # rest) of Inl e \<Rightarrow> Inl e | Inr routes \<Rightarrow>
         Inr (\<lparr>source = a, target = b,
               airlines = map airline (filter (\<lambda>edge. dest edge = b \<and> keep (airline edge)) (adj s))\<rparr>
              # routes)))"

text \<open>The outer loop: a route path is appended unless \<^verbatim>\<open>std::find\<close> finds it in the result.\<close>

fun collectPaths :: "(string \<Rightarrow> bool) \<Rightarrow> Graph \<Rightarrow> Route list list \<Rightarrow> string list list \<Rightarrow> error + Route list list" where
  "collectPaths keep g paths [] = Inr paths"
| "collectPaths keep g paths (path # rest) =
     (case routePath keep g path of Inl e \<Rightarrow> Inl e | Inr rp \<Rightarrow>
        collectPaths keep g (if rp \<in> set paths then paths else paths @ [rp]) rest)"

definition findBestFlightOptions :: "Graph \<Rightarrow> string \<Rightarrow> string \<Rightarrow> error + Route list list" where
  "findBestFlightOptions g s d =
     (case shortestPathsBFS g s d of Inl e \<Rightarrow> Inl e
      | Inr shortestPaths \<Rightarrow> collectPaths (\<lambda>a. True) g [] shortestPaths)"

text \<open>The overload taking \<^verbatim>\<open>selectedAirlines\<close>.\<close>

definition findBestFlightOptions_airlines :: "Graph \<Rightarrow> string \<Rightarrow> string \<Rightarrow> string list \<Rightarrow> error + Route list list" where
  "findBestFlightOptions_airlines g s d selectedAirlines =
     (case shortestPathsBFS_airlines g s d selectedAirlines of Inl e \<Rightarrow> Inl e
      | Inr shortestPaths \<Rightarrow> collectPaths (\<lambda>a. a \<in> set selectedAirlines) g [] shortestPaths)"

section \<open>findSmallestDistance\<close>

text \<open>
  The loop over the routes of one path. Both endpoints of the route are looked up and the
  adjacency list of the source is scanned (\<^verbatim>\<open>src->getAdj()\<close>, untested); at each edge the code
  of its destination is compared with that of the target (\<^verbatim>\<open>dest->getInfo()\<close>, untested, and
  not reached when the list is empty). The distance of the first edge whose destination is
  the target is added to the total with \<^verbatim>\<open>+=\<close>, the addition \<open>add\<close> of doubles, and \<^verbatim>\<open>break\<close>
  ends the scan. Nothing is added when there is no such edge.
\<close>

fun pathDistance :: "(real \<Rightarrow> real \<Rightarrow> real) \<Rightarrow> Graph \<Rightarrow> real \<Rightarrow> Route list \<Rightarrow> error + real" where
  "pathDistance add g totalDistance [] = Inr totalDistance"
| "pathDistance add g totalDistance (route # rest) =
     (case findVertex g (source route) of Inl e \<Rightarrow> Inl BadDereference | Inr src \<Rightarrow>
        if adj src = [] then pathDistance add g totalDistance rest
        else (case findVertex g (target route) of Inl e \<Rightarrow> Inl BadDereference | Inr dst \<Rightarrow>
                pathDistance add g
                  (case find (\<lambda>edge. dest edge = info dst) (adj src) of
                     None \<Rightarrow> totalDistance
                   | Some edge \<Rightarrow> add totalDistance (distance edge))
                  rest))"

text \<open>
  The loop over all paths, keeping the smallest total and the path that gave it. Each total
  starts at \<^verbatim>\<open>0.0\<close>.
\<close>

fun scanPaths :: "(real \<Rightarrow> real \<Rightarrow> real) \<Rightarrow> Graph \<Rightarrow> real \<times> Route list \<Rightarrow> Route list list \<Rightarrow> error + real \<times> Route list" where
  "scanPaths add g best [] = Inr best"
| "scanPaths add g (minDistance, minPath) (path # rest) =
     (case pathDistance add g 0 path of Inl e \<Rightarrow> Inl e
      | Inr totalDistance \<Rightarrow>
          scanPaths add g (if totalDistance < minDistance then (totalDistance, path)
                           else (minDistance, minPath)) rest)"

text \<open>\<^verbatim>\<open>DBL_MAX\<close> of \<^verbatim>\<open><cfloat>\<close>, the largest finite \<^verbatim>\<open>double\<close>: 53 one bits at exponent 971.\<close>

definition DBL_MAX :: real where
  "DBL_MAX = (2 ^ 53 - 1) * 2 ^ 971"

text \<open>
  \<^verbatim>\<open>printRoute\<close> reads \<^verbatim>\<open>airports.find(code)->second\<close> for both endpoints of the route without
  testing the iterator; it can be run when both codes are keys of the table.
\<close>

definition printRoute :: "(string \<rightharpoonup> Airport) \<Rightarrow> Route \<Rightarrow> bool" where
  "printRoute table route \<longleftrightarrow> table (source route) \<noteq> None \<and> table (target route) \<noteq> None"

text \<open>
  The function returns \<^verbatim>\<open>0.0\<close> when either code is not a key of the airports table; otherwise
  it scans the best flight options, prints the routes of the smallest path and returns the
  smallest total.
\<close>

definition findSmallestDistance :: "(real \<Rightarrow> real \<Rightarrow> real) \<Rightarrow> FlightManagementSystem \<Rightarrow> string \<Rightarrow> string \<Rightarrow> error + real" where
  "findSmallestDistance add fms s d =
     (if airports fms s = None \<or> airports fms d = None then Inr 0
      else case findBestFlightOptions (flights fms) s d of Inl e \<Rightarrow> Inl e
      | Inr allPaths \<Rightarrow>
         (case scanPaths add (flights fms) (DBL_MAX, []) allPaths of Inl e \<Rightarrow> Inl e
          | Inr (minDistance, minPath) \<Rightarrow>
              if list_all (printRoute (airports fms)) minPath then Inr minDistance
              else Inl BadDereference))"

section \<open>Queries on one airport\<close>

text \<open>
  The three functions below begin with \<^verbatim>\<open>auto vertex = flights.findVertex(airportCode);\<close> and
  call a member of \<^verbatim>\<open>vertex\<close> in the next statement (\<^verbatim>\<open>vertex->getOutdegree()\<close>,
  \<^verbatim>\<open>vertex->getAdj()\<close>). \<^verbatim>\<open>findVertex\<close> returns a \<^verbatim>\<open>Vertex*\<close>, the result is not tested, and the
  file has no \<^verbatim>\<open>try\<close>: after a lookup that found no vertex the member is called through a pointer
  to no vertex.

  Modelled from the spec: \<^verbatim>\<open>Vertex::getOutdegree\<close> is the ``count of outgoing edges'', the length
  of the adjacency list.
\<close>

definition getNumberOfFlightsFromAirport :: "FlightManagementSystem \<Rightarrow> string \<Rightarrow> error + int" where
  "getNumberOfFlightsFromAirport fms airportCode =
     (case findVertex (flights fms) airportCode of Inl e \<Rightarrow> Inl BadDereference
      | Inr vertex \<Rightarrow> Inr (int (length (adj vertex))))"

definition getNumberOfAirlinesFromAirport :: "FlightManagementSystem \<Rightarrow> string \<Rightarrow> error + int" where
  "getNumberOfAirlinesFromAirport fms airportCode =
     (case findVertex (flights fms) airportCode of Inl e \<Rightarrow> Inl BadDereference
      | Inr vertex \<Rightarrow> Inr (int (card (set (map airline (adj vertex))))))"

text \<open>
  \<^verbatim>\<open>airports.find(code)->second\<close> for each code of a list, in order; the iterator is not tested,
  so a code that is not a key is a dereference of \<^verbatim>\<open>end()\<close>.
\<close>

fun lookupAirports :: "(string \<rightharpoonup> Airport) \<Rightarrow> string list \<Rightarrow> error + (string \<times> Airport) list" where
  "lookupAirports table [] = Inr []"
| "lookupAirports table (code # rest) =
     (case table code of None \<Rightarrow> Inl BadDereference
      | Some airport \<Rightarrow>
          (case lookupAirports table rest of Inl e \<Rightarrow> Inl e
           | Inr found \<Rightarrow> Inr ((code, airport) # found)))"

definition getNumberOfCountriesFromAirport :: "FlightManagementSystem \<Rightarrow> string \<Rightarrow> error + int" where
  "getNumberOfCountriesFromAirport fms airportCode =
     (case findVertex (flights fms) airportCode of Inl e \<Rightarrow> Inl BadDereference
      | Inr vertex \<Rightarrow>
          (case lookupAirports (airports fms) (map dest (adj vertex)) of Inl e \<Rightarrow> Inl e
           | Inr found \<Rightarrow> Inr (int (card (set (map (\<lambda>(code, airport). country airport) found))))))"

section \<open>Reachable destinations within a number of stops\<close>



section \<open>Notions the statements speak of\<close>

text \<open>
  A chain of flights: a non-empty sequence of airport codes in which every code has an edge
  the traversal may use to the next one.
\<close>

fun walk :: "(Edge \<Rightarrow> bool) \<Rightarrow> Graph \<Rightarrow> string list \<Rightarrow> bool" where
  "walk ok g [] = False"
| "walk ok g [a] = True"
| "walk ok g (a # b # rest) = (b \<in> set (neighbours ok g a) \<and> walk ok g (b # rest))"

text \<open>The codes that a chain of exactly \<open>n\<close> flights from \<open>s\<close> ends at.\<close>

fun reached :: "(Edge \<Rightarrow> bool) \<Rightarrow> Graph \<Rightarrow> string \<Rightarrow> nat \<Rightarrow> string set" where
  "reached ok g s 0 = {s}"
| "reached ok g s (Suc n) = (\<Union>u\<in>reached ok g s n. set (neighbours ok g u))"

text \<open>The codes at hop distance exactly \<open>n\<close> from \<open>s\<close>: reached in \<open>n\<close> flights and in no fewer.\<close>

definition newAt :: "(Edge \<Rightarrow> bool) \<Rightarrow> Graph \<Rightarrow> string \<Rightarrow> nat \<Rightarrow> string set" where
  "newAt ok g s n = reached ok g s n - (\<Union>m<n. reached ok g s m)"

text \<open>A chain of flights from \<open>s\<close> to \<open>d\<close> that no chain from \<open>s\<close> to \<open>d\<close> is shorter than.\<close>

definition shortestWalk :: "(Edge \<Rightarrow> bool) \<Rightarrow> Graph \<Rightarrow> string \<Rightarrow> string \<Rightarrow> string list \<Rightarrow> bool" where
  "shortestWalk ok g s d p \<longleftrightarrow>
     walk ok g p \<and> hd p = s \<and> last p = d
     \<and> (\<forall>q. walk ok g q \<and> hd q = s \<and> last q = d \<longrightarrow> length p \<le> length q)"

text \<open>The hop distance the breadth-first search finds from \<open>s\<close> to \<open>d\<close>, over all edges.\<close>

definition bfsDistance :: "Graph \<Rightarrow> string \<Rightarrow> string \<Rightarrow> nat option" where
  "bfsDistance g s d = levelOf (bfsLayers (\<lambda>e. True) g [s] [s]) d"

text \<open>Consecutive hops chain: the target of each hop is the source of the next.\<close>

definition chained :: "Route list \<Rightarrow> bool" where
  "chained routes \<longleftrightarrow> (\<forall>i. Suc i < length routes \<longrightarrow> target (routes ! i) = source (routes ! Suc i))"

text \<open>A hop with its airline list restricted to the selected airlines.\<close>

definition restrictTo :: "string list \<Rightarrow> Route \<Rightarrow> Route" where
  "restrictTo selectedAirlines route =
     route\<lparr>airlines := filter (\<lambda>a. a \<in> set selectedAirlines) (airlines route)\<rparr>"

text \<open>
  The two overloads of \<^verbatim>\<open>findBestFlightOptions\<close> differ in the edges the search may use and in
  the airlines a hop lists; \<open>bestOptions\<close> is their common form, used to prove facts about both
  at once.
\<close>

definition bestOptions :: "(Edge \<Rightarrow> bool) \<Rightarrow> (string \<Rightarrow> bool) \<Rightarrow> Graph \<Rightarrow> string \<Rightarrow> string \<Rightarrow> error + Route list list" where
  "bestOptions ok keep g s d =
     (case shortestPathSet ok g s d of Inl e \<Rightarrow> Inl e | Inr sp \<Rightarrow> collectPaths keep g [] sp)"

text \<open>
  The distance one hop contributes to the total of \<open>findSmallestDistance\<close>, and the total of
  an itinerary: the contributions of its hops added to \<^verbatim>\<open>0.0\<close> one after the other, from the
  first hop on, with the addition of doubles.
\<close>

definition hopLength :: "Graph \<Rightarrow> Route \<Rightarrow> real" where
  "hopLength g route =
     (case findVertex g (source route) of Inl e \<Rightarrow> 0
      | Inr src \<Rightarrow> (case find (\<lambda>edge. dest edge = target route) (adj src) of
                      None \<Rightarrow> 0 | Some edge \<Rightarrow> distance edge))"

definition itineraryDistance :: "(real \<Rightarrow> real \<Rightarrow> real) \<Rightarrow> Graph \<Rightarrow> Route list \<Rightarrow> real" where
  "itineraryDistance add g routes = foldl add 0 (map (hopLength g) routes)"









section \<open>Properties of the search\<close>

lemma walk_snoc:
  "q \<noteq> [] \<Longrightarrow> walk ok g (q @ [c]) \<longleftrightarrow> walk ok g q \<and> c \<in> set (neighbours ok g (last q))"
  by (induction ok g q rule: walk.induct) auto

lemma walk_nonempty: "walk ok g p \<Longrightarrow> p \<noteq> []"
  by (cases p) auto

lemma reached_walk:
  "v \<in> reached ok g s n \<longleftrightarrow> (\<exists>p. walk ok g p \<and> hd p = s \<and> last p = v \<and> length p = Suc n)"
proof (induction n arbitrary: v)
  case 0
  show ?case
  proof
    assume "v \<in> reached ok g s 0"
    then have "walk ok g [s] \<and> hd [s] = s \<and> last [s] = v \<and> length [s] = Suc 0" by simp
    then show "\<exists>p. walk ok g p \<and> hd p = s \<and> last p = v \<and> length p = Suc 0" by blast
  next
    assume "\<exists>p. walk ok g p \<and> hd p = s \<and> last p = v \<and> length p = Suc 0"
    then obtain p where p: "hd p = s" "last p = v" "length p = Suc 0" by blast
    then obtain a where "p = [a]" by (cases p) auto
    with p show "v \<in> reached ok g s 0" by simp
  qed
next
  case (Suc n)
  show ?case
  proof
    assume "v \<in> reached ok g s (Suc n)"
    then obtain u where u: "u \<in> reached ok g s n" "v \<in> set (neighbours ok g u)" by auto
    then obtain q where q: "walk ok g q" "hd q = s" "last q = u" "length q = Suc n"
      using Suc.IH by blast
    then have qne: "q \<noteq> []" by auto
    have "walk ok g (q @ [v])" using q u qne by (simp add: walk_snoc)
    moreover have "hd (q @ [v]) = s" using q qne by simp
    ultimately show "\<exists>p. walk ok g p \<and> hd p = s \<and> last p = v \<and> length p = Suc (Suc n)"
      using q(4) by (intro exI [of _ "q @ [v]"]) simp
  next
    assume "\<exists>p. walk ok g p \<and> hd p = s \<and> last p = v \<and> length p = Suc (Suc n)"
    then obtain p where p: "walk ok g p" "hd p = s" "last p = v" "length p = Suc (Suc n)" by blast
    then have "p \<noteq> []" by auto
    then obtain q where pq: "p = q @ [v]" using p(3) by (metis append_butlast_last_id)
    have qlen: "length q = Suc n" using p(4) pq by simp
    then have qne: "q \<noteq> []" by auto
    have "walk ok g q" and nb: "v \<in> set (neighbours ok g (last q))"
      using p(1) pq qne by (simp_all add: walk_snoc)
    moreover have "hd q = s" using p(2) pq qne by simp
    ultimately have "last q \<in> reached ok g s n" using Suc.IH qlen by blast
    with nb show "v \<in> reached ok g s (Suc n)" by auto
  qed
qed

lemma newAt_empty_Suc:
  assumes "newAt ok g s n = {}"
  shows "newAt ok g s (Suc n) = {}"
proof -
  { fix w assume w: "w \<in> reached ok g s (Suc n)"
    then obtain u where u: "u \<in> reached ok g s n" "w \<in> set (neighbours ok g u)" by auto
    with assms obtain m where m: "m < n" "u \<in> reached ok g s m" by (auto simp: newAt_def)
    then have "w \<in> reached ok g s (Suc m)" using u(2) by auto
    moreover have "Suc m < Suc n" using m by simp
    ultimately have "w \<in> (\<Union>m<Suc n. reached ok g s m)" by blast }
  then show ?thesis unfolding newAt_def by blast
qed

lemma newAt_empty_ge: "newAt ok g s n = {} \<Longrightarrow> n \<le> m \<Longrightarrow> newAt ok g s m = {}"
  by (induction m) (auto simp: le_Suc_eq newAt_empty_Suc)

lemma discovered_set:
  "set (discovered ok g seen frontier) = (\<Union>u\<in>set frontier. set (neighbours ok g u)) - set seen"
  by (auto simp: discovered_def)

lemma bfs_step:
  assumes fr: "set frontier = newAt ok g s i"
      and sn: "set seen = (\<Union>m\<le>i. reached ok g s m)"
  shows "set (discovered ok g seen frontier) = newAt ok g s (Suc i)"
    and "set (seen @ discovered ok g seen frontier) = (\<Union>m\<le>Suc i. reached ok g s m)"
proof -
  have lt: "(\<Union>m<Suc i. reached ok g s m) = set seen" using sn by (simp add: lessThan_Suc_atMost)
  have "(\<Union>u\<in>set frontier. set (neighbours ok g u)) - set seen = reached ok g s (Suc i) - set seen"
  proof
    show "(\<Union>u\<in>set frontier. set (neighbours ok g u)) - set seen \<subseteq> reached ok g s (Suc i) - set seen"
      using fr by (auto simp: newAt_def)
  next
    show "reached ok g s (Suc i) - set seen \<subseteq> (\<Union>u\<in>set frontier. set (neighbours ok g u)) - set seen"
    proof
      fix w assume w: "w \<in> reached ok g s (Suc i) - set seen"
      then obtain u where u: "u \<in> reached ok g s i" "w \<in> set (neighbours ok g u)" by auto
      have "u \<in> set frontier"
      proof (rule ccontr)
        assume "u \<notin> set frontier"
        with fr u(1) obtain m where m: "m < i" "u \<in> reached ok g s m" by (auto simp: newAt_def)
        then have "w \<in> reached ok g s (Suc m)" using u(2) by auto
        moreover have "Suc m \<le> i" using m by simp
        ultimately have "w \<in> set seen" unfolding sn by blast
        with w show False by simp
      qed
      with u(2) w show "w \<in> (\<Union>u\<in>set frontier. set (neighbours ok g u)) - set seen" by auto
    qed
  qed
  then have d: "set (discovered ok g seen frontier) = reached ok g s (Suc i) - set seen"
    by (simp add: discovered_set)
  then show "set (discovered ok g seen frontier) = newAt ok g s (Suc i)"
    by (simp add: newAt_def lt)
  have "(\<Union>m\<le>Suc i. reached ok g s m) = set seen \<union> reached ok g s (Suc i)"
    unfolding sn by (simp add: atMost_Suc Un_commute)
  then show "set (seen @ discovered ok g seen frontier) = (\<Union>m\<le>Suc i. reached ok g s m)"
    using d by auto
qed

lemma bfsLayers_char:
  assumes "set frontier = newAt ok g s i"
      and "set seen = (\<Union>m\<le>i. reached ok g s m)"
  shows "(\<forall>j<length (bfsLayers ok g seen frontier).
            set (bfsLayers ok g seen frontier ! j) = newAt ok g s (i + j))
         \<and> newAt ok g s (i + length (bfsLayers ok g seen frontier)) = {}"
  using assms
proof (induction ok g seen frontier arbitrary: i rule: bfsLayers.induct)
  case (1 ok g seen frontier)
  show ?case
  proof (cases "frontier = []")
    case True
    then show ?thesis using "1.prems" by (simp add: bfsLayers.simps)
  next
    case False
    let ?next = "discovered ok g seen frontier"
    let ?rest = "bfsLayers ok g (seen @ ?next) ?next"
    have L: "bfsLayers ok g seen frontier = frontier # ?rest"
      using False by (subst bfsLayers.simps) simp
    have ih: "(\<forall>j<length ?rest. set (?rest ! j) = newAt ok g s (Suc i + j))
         \<and> newAt ok g s (Suc i + length ?rest) = {}"
      using "1.IH" [OF False, of "Suc i"] bfs_step [OF "1.prems"] by blast
    have "set ((frontier # ?rest) ! j) = newAt ok g s (i + j)" if "j < length (frontier # ?rest)" for j
    proof (cases j)
      case 0
      then show ?thesis using "1.prems"(1) by simp
    next
      case (Suc j')
      then show ?thesis using ih that by simp
    qed
    moreover have "newAt ok g s (i + length (frontier # ?rest)) = {}" using ih by simp
    ultimately show ?thesis unfolding L by blast
  qed
qed

lemma levelOf_Some_iff:
  "levelOf layers v = Some k \<longleftrightarrow>
     k < length layers \<and> v \<in> set (layers ! k) \<and> (\<forall>j<k. v \<notin> set (layers ! j))"
proof (induction layers arbitrary: k)
  case Nil
  then show ?case by simp
next
  case (Cons layer layers)
  show ?case
  proof (cases "v \<in> set layer")
    case True
    then show ?thesis by (cases k) auto
  next
    case False
    show ?thesis
    proof (cases k)
      case 0
      then show ?thesis using False by simp
    next
      case (Suc k')
      have "(\<forall>j<Suc k'. v \<notin> set ((layer # layers) ! j)) \<longleftrightarrow> (\<forall>j<k'. v \<notin> set (layers ! j))"
        using False by (auto simp: less_Suc_eq_0_disj)
      then show ?thesis using False Suc Cons.IH [of k'] by auto
    qed
  qed
qed

lemma levelOf_bfs:
  "levelOf (bfsLayers ok g [s] [s]) v = Some k \<longleftrightarrow> v \<in> newAt ok g s k"
proof -
  let ?L = "bfsLayers ok g [s] [s]"
  have c: "(\<forall>j<length ?L. set (?L ! j) = newAt ok g s j) \<and> newAt ok g s (length ?L) = {}"
    using bfsLayers_char [of "[s]" ok g s 0 "[s]"] by (simp add: newAt_def)
  show ?thesis
  proof
    assume "levelOf ?L v = Some k"
    then show "v \<in> newAt ok g s k" using c by (auto simp: levelOf_Some_iff)
  next
    assume v: "v \<in> newAt ok g s k"
    have "k < length ?L"
    proof (rule ccontr)
      assume "\<not> k < length ?L"
      then have "newAt ok g s k = {}" using c newAt_empty_ge [of ok g s "length ?L" k] by simp
      with v show False by simp
    qed
    moreover have "v \<in> set (?L ! k)" using c v calculation by simp
    moreover have "\<forall>j<k. v \<notin> set (?L ! j)"
    proof (intro allI impI)
      fix j assume "j < k"
      then have "v \<notin> reached ok g s j" using v by (auto simp: newAt_def)
      moreover have "j < length ?L" using \<open>j < k\<close> \<open>k < length ?L\<close> by simp
      ultimately show "v \<notin> set (?L ! j)" using c by (simp add: newAt_def)
    qed
    ultimately show "levelOf ?L v = Some k" by (simp add: levelOf_Some_iff)
  qed
qed

lemma findVertex_present:
  "distinct (map info g) \<Longrightarrow> u \<in> set g \<Longrightarrow> findVertex g (info u) = Inr u"
  by (induction g) (auto simp: findVertex_def)

lemma neighbours_iff:
  "c \<in> set (neighbours ok g a) \<longleftrightarrow>
     (\<exists>v e. findVertex g a = Inr v \<and> e \<in> set (adj v) \<and> ok e \<and> dest e = c)"
  by (cases "findVertex g a") (auto simp: neighbours_def)

lemma predecessors_iff:
  assumes "distinct (map info g)"
  shows "u \<in> set (predecessors ok g layers k c) \<longleftrightarrow>
           levelOf layers u = Some k \<and> c \<in> set (neighbours ok g u)"
proof
  assume "u \<in> set (predecessors ok g layers k c)"
  then obtain uv e where uv: "uv \<in> set g" "levelOf layers (info uv) = Some k"
      "e \<in> set (adj uv)" "ok e" "dest e = c" "u = info uv"
    by (auto simp: predecessors_def)
  have "findVertex g u = Inr uv" using findVertex_present [OF assms uv(1)] uv(6) by simp
  then show "levelOf layers u = Some k \<and> c \<in> set (neighbours ok g u)"
    using uv by (auto simp: neighbours_iff)
next
  assume a: "levelOf layers u = Some k \<and> c \<in> set (neighbours ok g u)"
  then obtain v e where v: "findVertex g u = Inr v" "e \<in> set (adj v)" "ok e" "dest e = c"
    by (auto simp: neighbours_iff)
  then have "v \<in> set g" "info v = u" using findVertex_Inr by blast+
  then show "u \<in> set (predecessors ok g layers k c)"
    using a v by (auto simp: predecessors_def)
qed

lemma reconstruct_sound:
  assumes "distinct (map info g)"
  shows "p \<in> set (reconstruct ok g layers s k c) \<Longrightarrow>
           walk ok g p \<and> hd p = s \<and> last p = c \<and> length p = Suc k"
proof (induction k arbitrary: p c)
  case 0
  then show ?case by (auto split: if_splits)
next
  case (Suc k)
  then obtain u q where u: "u \<in> set (predecessors ok g layers k c)"
      and q: "q \<in> set (reconstruct ok g layers s k u)" and p: "p = q @ [c]"
    by auto
  have qq: "walk ok g q \<and> hd q = s \<and> last q = u \<and> length q = Suc k"
    using Suc.IH [OF q] .
  then have qne: "q \<noteq> []" by auto
  have "c \<in> set (neighbours ok g u)" using u predecessors_iff [OF assms] by blast
  then have "walk ok g (q @ [c])" using qq qne by (simp add: walk_snoc)
  then show ?case using qq qne p by simp
qed

lemma reached_step:
  "u \<in> reached ok g s m \<Longrightarrow> c \<in> set (neighbours ok g u) \<Longrightarrow> c \<in> reached ok g s (Suc m)"
  by auto

lemma newAt_least: "c \<in> newAt ok g s k \<Longrightarrow> m < k \<Longrightarrow> c \<notin> reached ok g s m"
  by (auto simp: newAt_def)

lemma reconstruct_complete:
  assumes "distinct (map info g)"
  shows "walk ok g p \<Longrightarrow> hd p = s \<Longrightarrow> last p = c \<Longrightarrow> length p = Suc k \<Longrightarrow>
         levelOf (bfsLayers ok g [s] [s]) c = Some k \<Longrightarrow>
         p \<in> set (reconstruct ok g (bfsLayers ok g [s] [s]) s k c)"
proof (induction k arbitrary: p c)
  case 0
  then obtain a where "p = [a]" by (cases p) auto
  with 0 show ?case by simp
next
  case (Suc k)
  let ?L = "bfsLayers ok g [s] [s]"
  from Suc.prems have "p \<noteq> []" by auto
  then obtain q where pq: "p = q @ [c]" using Suc.prems(3) by (metis append_butlast_last_id)
  have qlen: "length q = Suc k" using Suc.prems(4) pq by simp
  then have qne: "q \<noteq> []" by auto
  have wq: "walk ok g q" and nb: "c \<in> set (neighbours ok g (last q))"
    using Suc.prems(1) pq qne by (simp_all add: walk_snoc)
  have hq: "hd q = s" using Suc.prems(2) pq qne by simp
  have ur: "last q \<in> reached ok g s k" using wq hq qlen reached_walk by blast
  have cnew: "c \<in> newAt ok g s (Suc k)" using Suc.prems(5) by (simp add: levelOf_bfs)
  have "last q \<notin> reached ok g s m" if "m < k" for m
  proof
    assume "last q \<in> reached ok g s m"
    then have "c \<in> reached ok g s (Suc m)" using nb by (rule reached_step)
    moreover have "Suc m < Suc k" using that by simp
    ultimately show False using newAt_least [OF cnew] by blast
  qed
  then have "last q \<in> newAt ok g s k" using ur by (auto simp: newAt_def)
  then have lv: "levelOf ?L (last q) = Some k" by (simp add: levelOf_bfs)
  then have "q \<in> set (reconstruct ok g ?L s k (last q))"
    using Suc.IH [OF wq hq refl qlen] by simp
  moreover have "last q \<in> set (predecessors ok g ?L k c)"
    using lv nb predecessors_iff [OF assms] by blast
  ultimately show ?case using pq by auto
qed

lemma level_shortest:
  assumes lv: "levelOf (bfsLayers ok g [s] [s]) d = Some k"
      and q: "walk ok g q" "hd q = s" "last q = d"
  shows "Suc k \<le> length q"
proof -
  from q(1) obtain n where n: "length q = Suc n" by (cases q) auto
  then have "d \<in> reached ok g s n" using q reached_walk by blast
  moreover have "d \<in> newAt ok g s k" using lv by (simp add: levelOf_bfs)
  ultimately have "\<not> n < k" by (auto simp: newAt_def)
  then show ?thesis using n by simp
qed

lemma walk_level:
  assumes q: "walk ok g q" "hd q = s" "last q = d"
  shows "\<exists>k. levelOf (bfsLayers ok g [s] [s]) d = Some k"
proof -
  from q(1) obtain n where n: "length q = Suc n" by (cases q) auto
  then have r: "d \<in> reached ok g s n" using q reached_walk by blast
  define k where "k = (LEAST m. d \<in> reached ok g s m)"
  have "d \<in> reached ok g s k" unfolding k_def using r by (rule LeastI)
  moreover have "\<forall>m<k. d \<notin> reached ok g s m" unfolding k_def using not_less_Least by blast
  ultimately have "d \<in> newAt ok g s k" by (auto simp: newAt_def)
  then show ?thesis using levelOf_bfs by blast
qed

lemma shortestPathSet_present:
  "shortestPathSet ok g s d = Inr ps \<Longrightarrow>
     (\<exists>sv. findVertex g s = Inr sv) \<and> (\<exists>dv. findVertex g d = Inr dv)"
  by (auto simp: shortestPathSet_def split: sum.splits)

lemma shortestPathSet_total:
  "findVertex g s = Inr sv \<Longrightarrow> findVertex g d = Inr dv \<Longrightarrow> \<exists>ps. shortestPathSet ok g s d = Inr ps"
  by (auto simp: shortestPathSet_def Let_def split: option.splits)

lemma shortestPathSet_absent:
  "findVertex g s = Inl e \<Longrightarrow> shortestPathSet ok g s d = Inl e"
  "findVertex g s = Inr sv \<Longrightarrow> findVertex g d = Inl e \<Longrightarrow> shortestPathSet ok g s d = Inl e"
  by (auto simp: shortestPathSet_def)

lemma shortestPathSet_sound:
  assumes "distinct (map info g)" and "shortestPathSet ok g s d = Inr ps" and "p \<in> set ps"
  shows "shortestWalk ok g s d p \<and> levelOf (bfsLayers ok g [s] [s]) d = Some (length p - 1)"
proof -
  let ?L = "bfsLayers ok g [s] [s]"
  from assms(2,3) obtain k where k: "levelOf ?L d = Some k" "p \<in> set (reconstruct ok g ?L s k d)"
    by (auto simp: shortestPathSet_def Let_def split: sum.splits option.splits)
  have w: "walk ok g p \<and> hd p = s \<and> last p = d \<and> length p = Suc k"
    using reconstruct_sound [OF assms(1) k(2)] .
  then show ?thesis using k(1) level_shortest [OF k(1)] by (auto simp: shortestWalk_def)
qed

lemma shortestPathSet_complete:
  assumes "distinct (map info g)" and "shortestPathSet ok g s d = Inr ps"
      and "shortestWalk ok g s d p"
  shows "p \<in> set ps"
proof -
  let ?L = "bfsLayers ok g [s] [s]"
  have w: "walk ok g p" "hd p = s" "last p = d" using assms(3) by (auto simp: shortestWalk_def)
  obtain k where k: "levelOf ?L d = Some k" using walk_level [OF w] by blast
  then have "d \<in> reached ok g s k" by (simp add: levelOf_bfs newAt_def)
  then obtain q where q: "walk ok g q" "hd q = s" "last q = d" "length q = Suc k"
    using reached_walk by blast
  then have "length p \<le> Suc k" using assms(3) by (auto simp: shortestWalk_def)
  with level_shortest [OF k w] have "length p = Suc k" by simp
  then have "p \<in> set (reconstruct ok g ?L s k d)"
    using reconstruct_complete [OF assms(1) w] k by simp
  moreover have "ps = reconstruct ok g ?L s k d"
    using assms(2) k by (auto simp: shortestPathSet_def Let_def split: sum.splits)
  ultimately show ?thesis by simp
qed

lemma shortestWalk_exists:
  assumes "walk ok g q" "hd q = s" "last q = d"
  shows "\<exists>p. shortestWalk ok g s d p"
proof -
  obtain k where k: "levelOf (bfsLayers ok g [s] [s]) d = Some k" using walk_level [OF assms] by blast
  then have "d \<in> reached ok g s k" by (simp add: levelOf_bfs newAt_def)
  then obtain p where p: "walk ok g p" "hd p = s" "last p = d" "length p = Suc k"
    using reached_walk by blast
  then have "shortestWalk ok g s d p"
    using level_shortest [OF k] by (auto simp: shortestWalk_def)
  then show ?thesis ..
qed

lemma shortestPathSet_empty_iff:
  assumes "distinct (map info g)" and "shortestPathSet ok g s d = Inr ps"
  shows "ps = [] \<longleftrightarrow> \<not> (\<exists>q. walk ok g q \<and> hd q = s \<and> last q = d)"
proof
  assume "ps = []"
  show "\<not> (\<exists>q. walk ok g q \<and> hd q = s \<and> last q = d)"
  proof
    assume "\<exists>q. walk ok g q \<and> hd q = s \<and> last q = d"
    then obtain p where "shortestWalk ok g s d p" using shortestWalk_exists by blast
    then have "p \<in> set ps" using shortestPathSet_complete [OF assms] by blast
    with \<open>ps = []\<close> show False by simp
  qed
next
  assume n: "\<not> (\<exists>q. walk ok g q \<and> hd q = s \<and> last q = d)"
  show "ps = []"
  proof (rule ccontr)
    assume "ps \<noteq> []"
    then obtain p where "p \<in> set ps" by (cases ps) auto
    then have "shortestWalk ok g s d p" using shortestPathSet_sound [OF assms] by blast
    with n show False by (auto simp: shortestWalk_def)
  qed
qed

lemma bfsLayers_Nil: "bfsLayers ok g seen [] = []"
  by (simp add: bfsLayers.simps)

lemma bfsLayers_Cons:
  "bfsLayers ok g seen (x # xs) =
     (x # xs) # bfsLayers ok g (seen @ discovered ok g seen (x # xs)) (discovered ok g seen (x # xs))"
  by (subst bfsLayers.simps) simp

lemma neighbours_mono:
  "(\<And>e. ok e \<Longrightarrow> ok' e) \<Longrightarrow> set (neighbours ok g a) \<subseteq> set (neighbours ok' g a)"
  by (cases "findVertex g a") (auto simp: neighbours_def)

lemma walk_mono: "(\<And>e. ok e \<Longrightarrow> ok' e) \<Longrightarrow> walk ok g p \<Longrightarrow> walk ok' g p"
proof (induction ok g p rule: walk.induct)
  case (3 ok g a b rest)
  then show ?case using neighbours_mono [of ok ok' g a] by auto
qed simp_all

lemma neighbours_findVertex: "b \<in> set (neighbours ok g a) \<Longrightarrow> \<exists>v. findVertex g a = Inr v"
  by (auto simp: neighbours_iff)

lemma routePath_walk: "walk ok g p \<Longrightarrow> \<exists>rs. routePath keep g p = Inr rs"
proof (induction ok g p rule: walk.induct)
  case (3 ok g a b rest)
  then obtain v where "findVertex g a = Inr v" using neighbours_findVertex by fastforce
  moreover obtain rs where "routePath keep g (b # rest) = Inr rs" using 3 by auto
  ultimately show ?case by simp
qed simp_all

lemma routePath_ends:
  "routePath keep g p = Inr rs \<Longrightarrow> map source rs = butlast p \<and> map target rs = tl p"
  by (induction keep g p arbitrary: rs rule: routePath.induct) (auto split: sum.splits)

lemma routePath_length: "routePath keep g p = Inr rs \<Longrightarrow> length p = Suc (length rs)"
  by (induction keep g p arbitrary: rs rule: routePath.induct) (auto split: sum.splits)

lemma routePath_keep:
  "routePath keep g p = Inr rs \<Longrightarrow> r \<in> set rs \<Longrightarrow> a \<in> set (airlines r) \<Longrightarrow> keep a"
  by (induction keep g p arbitrary: rs rule: routePath.induct) (auto split: sum.splits)

lemma routePath_restrict:
  "routePath (\<lambda>a. True) g p = Inr rs \<Longrightarrow>
   routePath (\<lambda>a. a \<in> set sel) g p = Inr (map (restrictTo sel) rs)"
  by (induction "\<lambda>a::string. True" g p arbitrary: rs rule: routePath.induct)
     (auto split: sum.splits simp: restrictTo_def filter_map comp_def conj_commute)

lemma routePath_inj:
  "routePath keep g p = Inr rs \<Longrightarrow> routePath keep g q = Inr rs \<Longrightarrow> hd p = hd q \<Longrightarrow> p = q"
proof -
  assume a: "routePath keep g p = Inr rs" "routePath keep g q = Inr rs" "hd p = hd q"
  then have "tl p = tl q" using routePath_ends by metis
  moreover have "p \<noteq> []" "q \<noteq> []" using a routePath_length by fastforce+
  ultimately show "p = q" using a(3) by (metis list.collapse)
qed

lemma chained_routePath:
  assumes "routePath keep g p = Inr rs"
  shows "chained rs"
proof -
  have e: "map source rs = butlast p" "map target rs = tl p" and l: "length p = Suc (length rs)"
    using routePath_ends [OF assms] routePath_length [OF assms] by auto
  { fix i assume i: "Suc i < length rs"
    have "target (rs ! i) = map target rs ! i" using i by simp
    also have "\<dots> = p ! Suc i" using e(2) i l by (simp add: nth_tl)
    also have "\<dots> = butlast p ! Suc i" using i l by (simp add: nth_butlast)
    also have "\<dots> = source (rs ! Suc i)" using e(1) [symmetric] i by simp
    finally have "target (rs ! i) = source (rs ! Suc i)" . }
  then show ?thesis by (simp add: chained_def)
qed

lemma routePath_endpoints:
  assumes "routePath keep g p = Inr rs" and "rs \<noteq> []"
  shows "source (hd rs) = hd p \<and> target (last rs) = last p"
proof -
  have e: "map source rs = butlast p" "map target rs = tl p" and l: "length p = Suc (length rs)"
    using routePath_ends [OF assms(1)] routePath_length [OF assms(1)] by auto
  have "source (hd rs) = hd (map source rs)" using assms(2) by (simp add: hd_map)
  also have "\<dots> = hd p" using e(1) assms(2) l by (cases p) (auto split: if_splits)
  finally have 1: "source (hd rs) = hd p" .
  have "target (last rs) = last (map target rs)" using assms(2) by (simp add: last_map)
  also have "\<dots> = last p" using e(2) assms(2) l by (cases p) (auto split: if_splits)
  finally show ?thesis using 1 by simp
qed

lemma collectPaths_set:
  "collectPaths keep g acc sp = Inr res \<Longrightarrow>
     set res = set acc \<union> {rs. \<exists>p\<in>set sp. routePath keep g p = Inr rs}"
proof (induction keep g acc sp arbitrary: res rule: collectPaths.induct)
  case (1 keep g paths)
  then show ?case by simp
next
  case (2 keep g paths path rest)
  from "2.prems" obtain rp where rp: "routePath keep g path = Inr rp"
    by (cases "routePath keep g path") auto
  let ?acc = "if rp \<in> set paths then paths else paths @ [rp]"
  have c: "collectPaths keep g ?acc rest = Inr res" using "2.prems" rp by simp
  have "set res = set ?acc \<union> {rs. \<exists>p\<in>set rest. routePath keep g p = Inr rs}"
    using "2.IH" [OF rp c] .
  moreover have "set ?acc = insert rp (set paths)" by auto
  moreover have "{rs. \<exists>p\<in>set (path # rest). routePath keep g p = Inr rs}
                 = insert rp {rs. \<exists>p\<in>set rest. routePath keep g p = Inr rs}"
    using rp by auto
  ultimately show ?case by simp
qed

lemma collectPaths_total:
  "(\<And>p. p \<in> set sp \<Longrightarrow> \<exists>rs. routePath keep g p = Inr rs) \<Longrightarrow>
     \<exists>res. collectPaths keep g acc sp = Inr res"
proof (induction keep g acc sp rule: collectPaths.induct)
  case (2 keep g paths path rest)
  obtain rs where rs: "routePath keep g path = Inr rs" using "2.prems" by fastforce
  then show ?case using "2.IH" [OF rs] "2.prems" by simp
qed simp

lemma collectPaths_distinct:
  "distinct acc \<Longrightarrow> collectPaths keep g acc sp = Inr res \<Longrightarrow> distinct res"
proof (induction keep g acc sp arbitrary: res rule: collectPaths.induct)
  case (1 keep g paths)
  then show ?case by simp
next
  case (2 keep g paths path rest)
  from "2.prems"(2) obtain rp where rp: "routePath keep g path = Inr rp"
    by (cases "routePath keep g path") auto
  let ?acc = "if rp \<in> set paths then paths else paths @ [rp]"
  have c: "collectPaths keep g ?acc rest = Inr res" using "2.prems" rp by simp
  have "distinct ?acc" using "2.prems"(1) by simp
  then show ?case using "2.IH" [OF rp _ c] by blast
qed

lemma findBestFlightOptions_bestOptions:
  "findBestFlightOptions g s d = bestOptions (\<lambda>e. True) (\<lambda>a. True) g s d"
  by (simp add: findBestFlightOptions_def shortestPathsBFS_def bestOptions_def)

lemma findBestFlightOptions_airlines_bestOptions:
  "findBestFlightOptions_airlines g s d sel =
     bestOptions (\<lambda>e. sel = [] \<or> airline e \<in> set sel) (\<lambda>a. a \<in> set sel) g s d"
  by (simp add: findBestFlightOptions_airlines_def shortestPathsBFS_airlines_def bestOptions_def)

lemma bestOptions_total:
  assumes "distinct (map info g)" "findVertex g s = Inr sv" "findVertex g d = Inr dv"
  shows "\<exists>opts. bestOptions ok keep g s d = Inr opts"
proof -
  obtain sp where sp: "shortestPathSet ok g s d = Inr sp"
    using shortestPathSet_total [OF assms(2,3)] by blast
  have "\<exists>rs. routePath keep g p = Inr rs" if "p \<in> set sp" for p
    using shortestPathSet_sound [OF assms(1) sp that] routePath_walk
    by (auto simp: shortestWalk_def)
  then show ?thesis using collectPaths_total [of sp keep g "[]"] by (simp add: bestOptions_def sp)
qed

lemma bestOptions_sound:
  assumes "distinct (map info g)" "bestOptions ok keep g s d = Inr opts" "it \<in> set opts"
  shows "\<exists>p. shortestWalk ok g s d p \<and> routePath keep g p = Inr it
             \<and> levelOf (bfsLayers ok g [s] [s]) d = Some (length it)"
proof -
  obtain sp where sp: "shortestPathSet ok g s d = Inr sp" and c: "collectPaths keep g [] sp = Inr opts"
    using assms(2) by (auto simp: bestOptions_def split: sum.splits)
  obtain p where p: "p \<in> set sp" "routePath keep g p = Inr it"
    using collectPaths_set [OF c] assms(3) by auto
  have "length p = Suc (length it)" using routePath_length [OF p(2)] .
  then show ?thesis using shortestPathSet_sound [OF assms(1) sp p(1)] p(2) by auto
qed

lemma bestOptions_complete:
  assumes "distinct (map info g)" "bestOptions ok keep g s d = Inr opts" "shortestWalk ok g s d p"
  shows "\<exists>it. routePath keep g p = Inr it \<and> it \<in> set opts"
proof -
  obtain sp where sp: "shortestPathSet ok g s d = Inr sp" and c: "collectPaths keep g [] sp = Inr opts"
    using assms(2) by (auto simp: bestOptions_def split: sum.splits)
  have p: "p \<in> set sp" using shortestPathSet_complete [OF assms(1) sp assms(3)] .
  have "walk ok g p" using assms(3) by (simp add: shortestWalk_def)
  then obtain it where it: "routePath keep g p = Inr it"
    using routePath_walk [of ok g p keep] by blast
  then have "it \<in> set opts" using collectPaths_set [OF c] p by auto
  with it show ?thesis by blast
qed

lemma bestOptions_distinct: "bestOptions ok keep g s d = Inr opts \<Longrightarrow> distinct opts"
  using collectPaths_distinct [of "[]"] by (auto simp: bestOptions_def split: sum.splits)

lemma reconstruct_hd:
  "p \<in> set (reconstruct ok g layers s k c) \<Longrightarrow> p \<noteq> [] \<and> hd p = s"
proof (induction k arbitrary: p c)
  case 0
  then show ?case by (auto split: if_splits)
next
  case (Suc k)
  then obtain u q where q: "q \<in> set (reconstruct ok g layers s k u)" and p: "p = q @ [c]"
    by auto
  then show ?case using Suc.IH [OF q] by simp
qed

lemma bestOptions_hd:
  assumes "bestOptions ok keep g s d = Inr opts" "it \<in> set opts"
  shows "\<exists>p. p \<noteq> [] \<and> hd p = s \<and> routePath keep g p = Inr it"
proof -
  obtain sp where sp: "shortestPathSet ok g s d = Inr sp" and c: "collectPaths keep g [] sp = Inr opts"
    using assms(1) by (auto simp: bestOptions_def split: sum.splits)
  obtain p where p: "p \<in> set sp" "routePath keep g p = Inr it"
    using collectPaths_set [OF c] assms(2) by auto
  have "sp = [] \<or> (\<exists>k. sp = reconstruct ok g (bfsLayers ok g [s] [s]) s k d)"
    using sp by (auto simp: shortestPathSet_def Let_def split: sum.splits option.splits)
  then have "p \<noteq> [] \<and> hd p = s"
    using p(1) reconstruct_hd by fastforce
  with p(2) show ?thesis by blast
qed

lemma routePath_lists_every_airline:
  "routePath keep g p = Inr rs \<Longrightarrow> r \<in> set rs \<Longrightarrow>
     \<exists>v. findVertex g (source r) = Inr v
        \<and> airlines r = map airline (filter (\<lambda>edge. dest edge = target r \<and> keep (airline edge)) (adj v))"
  by (induction keep g p arbitrary: rs rule: routePath.induct) (auto split: sum.splits)

lemma bestOptions_same_airports:
  assumes o: "bestOptions ok keep g s d = Inr opts"
      and i: "i \<in> set opts" and j: "j \<in> set opts" and t: "map target i = map target j"
  shows "i = j"
proof -
  obtain p where p: "p \<noteq> []" "hd p = s" "routePath keep g p = Inr i"
    using bestOptions_hd [OF o i] by blast
  obtain q where q: "q \<noteq> []" "hd q = s" "routePath keep g q = Inr j"
    using bestOptions_hd [OF o j] by blast
  have "tl p = tl q" using routePath_ends [OF p(3)] routePath_ends [OF q(3)] t by simp
  then have "p = q" using p(1,2) q(1,2) by (metis list.collapse)
  then show ?thesis using p(3) q(3) by simp
qed

section \<open>Properties of findSmallestDistance\<close>

lemma routePath_codes_present:
  "routePath keep g p = Inr rs \<Longrightarrow> findVertex g (last p) = Inr dv \<Longrightarrow>
     \<forall>c\<in>set p. \<exists>v. findVertex g c = Inr v"
  by (induction keep g p arbitrary: rs rule: routePath.induct) (auto split: sum.splits)

lemma routePath_endpoints_present:
  assumes "routePath keep g p = Inr rs" "findVertex g (last p) = Inr dv" "r \<in> set rs"
  shows "(\<exists>v. findVertex g (source r) = Inr v) \<and> (\<exists>v. findVertex g (target r) = Inr v)"
proof -
  have e: "map source rs = butlast p" "map target rs = tl p"
    using routePath_ends [OF assms(1)] by auto
  have "source r \<in> set (butlast p)" using assms(3) e(1) [symmetric] by simp
  then have 1: "source r \<in> set p" by (rule in_set_butlastD)
  have "target r \<in> set (tl p)" using assms(3) e(2) [symmetric] by simp
  then have 2: "target r \<in> set p" by (cases p) auto
  show ?thesis using routePath_codes_present [OF assms(1,2)] 1 2 by blast
qed

lemma routePath_hop_edge:
  "routePath keep g p = Inr rs \<Longrightarrow> walk ok g p \<Longrightarrow> r \<in> set rs \<Longrightarrow>
     target r \<in> set (neighbours ok g (source r))"
  by (induction keep g p arbitrary: rs rule: routePath.induct) (auto split: sum.splits)

lemma find_decompose:
  "find P xs = Some x \<Longrightarrow>
     \<exists>before after. xs = before @ x # after \<and> P x \<and> (\<forall>y\<in>set before. \<not> P y)"
proof (induction xs)
  case Nil
  then show ?case by simp
next
  case (Cons a xs)
  show ?case
  proof (cases "P a")
    case True
    then have "a = x" using Cons.prems by simp
    then have "a # xs = [] @ x # xs \<and> P x \<and> (\<forall>y\<in>set []. \<not> P y)" using True by simp
    then show ?thesis by blast
  next
    case False
    then have "find P xs = Some x" using Cons.prems by simp
    then obtain before after where "xs = before @ x # after" "P x" "\<forall>y\<in>set before. \<not> P y"
      using Cons.IH by blast
    then have "a # xs = (a # before) @ x # after \<and> P x \<and> (\<forall>y\<in>set (a # before). \<not> P y)"
      using False by simp
    then show ?thesis by blast
  qed
qed

lemma find_hd_filter:
  "find P xs = Some x \<Longrightarrow> filter P xs \<noteq> [] \<and> hd (filter P xs) = x"
  by (induction xs) (auto split: if_splits)

lemma find_exists: "x \<in> set xs \<Longrightarrow> P x \<Longrightarrow> \<exists>y. find P xs = Some y"
  by (induction xs) auto

text \<open>
  A hop of an itinerary that \<open>findBestFlightOptions\<close> builds: its two codes are vertices and
  the source has an edge to the target.
\<close>

lemma option_hop:
  assumes d: "distinct (map info g)"
      and o: "findBestFlightOptions g s d = Inr options"
      and i: "it \<in> set options" and r: "route \<in> set it"
  shows "\<exists>src dst edge. findVertex g (source route) = Inr src \<and> findVertex g (target route) = Inr dst
            \<and> find (\<lambda>e. dest e = target route) (adj src) = Some edge
            \<and> airlines route = map airline (filter (\<lambda>e. dest e = target route) (adj src))"
proof -
  have o': "bestOptions (\<lambda>e. True) (\<lambda>a. True) g s d = Inr options"
    using o by (simp add: findBestFlightOptions_bestOptions)
  obtain p where p: "shortestWalk (\<lambda>e. True) g s d p" "routePath (\<lambda>a. True) g p = Inr it"
    using bestOptions_sound [OF d o' i] by blast
  have w: "walk (\<lambda>e. True) g p" and l: "last p = d" using p(1) by (simp_all add: shortestWalk_def)
  obtain sp where "shortestPathSet (\<lambda>e. True) g s d = Inr sp"
    using o' by (auto simp: bestOptions_def split: sum.splits)
  then obtain dv where dv: "findVertex g d = Inr dv" using shortestPathSet_present by blast
  obtain dst where dst: "findVertex g (target route) = Inr dst"
    using routePath_endpoints_present [OF p(2) _ r] dv l by auto
  have "target route \<in> set (neighbours (\<lambda>e. True) g (source route))"
    using routePath_hop_edge [OF p(2) w r] .
  then obtain src e where src: "findVertex g (source route) = Inr src"
    and e: "e \<in> set (adj src)" "dest e = target route"
    by (auto simp: neighbours_iff)
  obtain edge where edge: "find (\<lambda>e. dest e = target route) (adj src) = Some edge"
    using find_exists [OF e(1), of "\<lambda>e. dest e = target route"] e(2) by blast
  obtain v where v: "findVertex g (source route) = Inr v"
    "airlines route = map airline (filter (\<lambda>edge. dest edge = target route \<and> True) (adj v))"
    using routePath_lists_every_airline [OF p(2) r] by blast
  have "airlines route = map airline (filter (\<lambda>e. dest e = target route) (adj src))"
    using v src by simp
  then show ?thesis using src dst edge by blast
qed

text \<open>The total of a path whose hops all have an edge: the contributions, added in order.\<close>

lemma pathDistance_sum:
  "(\<And>r. r \<in> set rs \<Longrightarrow>
       \<exists>src dst edge. findVertex g (source r) = Inr src \<and> findVertex g (target r) = Inr dst
          \<and> find (\<lambda>e. dest e = target r) (adj src) = Some edge) \<Longrightarrow>
   pathDistance add g tot rs = Inr (foldl add tot (map (hopLength g) rs))"
proof (induction rs arbitrary: tot)
  case Nil
  then show ?case by simp
next
  case (Cons r rs)
  obtain src dst edge where v: "findVertex g (source r) = Inr src" "findVertex g (target r) = Inr dst"
    and f: "find (\<lambda>e. dest e = target r) (adj src) = Some edge"
    using Cons.prems [of r] by auto
  have i: "info dst = target r" using findVertex_Inr [OF v(2)] by simp
  have n: "adj src \<noteq> []" using f by auto
  have h: "hopLength g r = distance edge" by (simp add: hopLength_def v f)
  have "pathDistance add g tot (r # rs) = pathDistance add g (add tot (hopLength g r)) rs"
    by (simp add: v i n f h)
  also have "\<dots> = Inr (foldl add (add tot (hopLength g r)) (map (hopLength g) rs))"
    using Cons.IH [of "add tot (hopLength g r)"] Cons.prems by simp
  finally show ?case by simp
qed

lemma Min_insert_min:
  "finite S \<Longrightarrow> Min (insert (min a b) S) = Min (insert a (insert b S))"
  by (cases "S = {}") (simp_all add: min.assoc)

lemma scanPaths_min:
  "(\<And>path r. path \<in> set paths \<Longrightarrow> r \<in> set path \<Longrightarrow>
       \<exists>src dst edge. findVertex g (source r) = Inr src \<and> findVertex g (target r) = Inr dst
          \<and> find (\<lambda>e. dest e = target r) (adj src) = Some edge) \<Longrightarrow>
   \<exists>minPath. scanPaths add g (m, mp) paths
                = Inr (Min (insert m (itineraryDistance add g ` set paths)), minPath)
            \<and> (minPath = mp \<or> minPath \<in> set paths)"
proof (induction paths arbitrary: m mp)
  case Nil
  then show ?case by simp
next
  case (Cons path paths)
  have "\<exists>src dst edge. findVertex g (source r) = Inr src \<and> findVertex g (target r) = Inr dst
          \<and> find (\<lambda>e. dest e = target r) (adj src) = Some edge"
    if "r \<in> set path" for r
    using Cons.prems [of path r] that by simp
  then have "pathDistance add g 0 path = Inr (foldl add 0 (map (hopLength g) path))"
    by (rule pathDistance_sum)
  then have pd: "pathDistance add g 0 path = Inr (itineraryDistance add g path)"
    by (simp add: itineraryDistance_def)
  let ?t = "itineraryDistance add g path"
  let ?best = "if ?t < m then (?t, path) else (m, mp)"
  have fst: "fst ?best = min ?t m" by (auto simp: min_def)
  obtain m' mp' where b: "?best = (m', mp')" by (cases ?best)
  have m': "m' = min ?t m" using fst b by simp
  have mp': "mp' = mp \<or> mp' = path" using b by (auto split: if_splits)
  obtain minPath where ih:
    "scanPaths add g (m', mp') paths
       = Inr (Min (insert m' (itineraryDistance add g ` set paths)), minPath)"
    "minPath = mp' \<or> minPath \<in> set paths"
    using Cons.IH [of m' mp'] Cons.prems by (meson list.set_intros(2))
  have "scanPaths add g (m, mp) (path # paths) = scanPaths add g (m', mp') paths"
    using pd b by simp
  moreover have "Min (insert m' (itineraryDistance add g ` set paths))
                   = Min (insert m (itineraryDistance add g ` set (path # paths)))"
    unfolding m' by (simp add: Min_insert_min insert_commute)
  moreover have "minPath = mp \<or> minPath \<in> set (path # paths)" using ih(2) mp' by auto
  ultimately show ?case using ih(1) by auto
qed

lemma DBL_MAX_large: "300 < DBL_MAX" "500 < DBL_MAX" "0 < DBL_MAX"
proof -
  have "(1::real) \<le> 2 ^ 971" by simp
  then have "(2 ^ 53 - 1) * (1::real) \<le> (2 ^ 53 - 1) * 2 ^ 971"
    by (intro mult_left_mono) simp_all
  then have "(9007199254740991::real) \<le> DBL_MAX" by (simp add: DBL_MAX_def)
  then show "300 < DBL_MAX" "500 < DBL_MAX" "0 < DBL_MAX" by simp_all
qed

lemma findSmallestDistance_min:
  assumes d: "distinct (map info (flights fms))"
      and c: "\<forall>v\<in>set (flights fms). airports fms (info v) \<noteq> None"
      and s: "findVertex (flights fms) s = Inr sv" and t: "findVertex (flights fms) d = Inr dv"
      and o: "findBestFlightOptions (flights fms) s d = Inr options"
  shows "findSmallestDistance add fms s d
           = Inr (Min (insert DBL_MAX (itineraryDistance add (flights fms) ` set options)))"
proof -
  let ?g = "flights fms"
  have key: "airports fms code \<noteq> None" if "findVertex ?g code = Inr v" for code v
    using findVertex_Inr [OF that] c by auto
  have pres: "\<exists>src dst edge. findVertex ?g (source r) = Inr src \<and> findVertex ?g (target r) = Inr dst
          \<and> find (\<lambda>e. dest e = target r) (adj src) = Some edge"
    if mem: "path \<in> set options" "r \<in> set path" for path r
    using option_hop [OF d o mem] by blast
  obtain minPath where sc:
    "scanPaths add ?g (DBL_MAX, []) options
       = Inr (Min (insert DBL_MAX (itineraryDistance add ?g ` set options)), minPath)"
    "minPath = [] \<or> minPath \<in> set options"
    using scanPaths_min [of options ?g add DBL_MAX "[]"] pres by blast
  have "list_all (printRoute (airports fms)) minPath"
  proof (cases "minPath = []")
    case True
    then show ?thesis by simp
  next
    case False
    then have "minPath \<in> set options" using sc(2) by simp
    then show ?thesis using pres key by (fastforce simp: list_all_iff printRoute_def)
  qed
  moreover have "airports fms s \<noteq> None" "airports fms d \<noteq> None" using key s t by blast+
  ultimately show ?thesis using o sc(1) by (auto simp: findSmallestDistance_def)
qed

lemma findVertex_absent: "code \<notin> info ` set g \<Longrightarrow> findVertex g code = Inl NotFound"
  by (induction g) (auto simp: findVertex_def)

section \<open>Properties of the counts\<close>







section \<open>Properties of minimizeAirlines\<close>

lemma increment_keys: "fst ` set (increment m a) = insert a (fst ` set m)"
  by (induction m a rule: increment.induct) auto

lemma increment_distinct: "distinct (map fst m) \<Longrightarrow> distinct (map fst (increment m a))"
  by (induction m a rule: increment.induct) (auto simp: increment_keys)

lemma increment_cnt: "cnt (increment m a) b = (if b = a then cnt m a + 1 else cnt m b)"
  by (induction m a rule: increment.induct) (auto simp: cnt_def)

lemma foldl_increment_keys: "fst ` set (foldl increment m xs) = fst ` set m \<union> set xs"
  by (induction xs arbitrary: m) (auto simp: increment_keys)

lemma foldl_increment_distinct:
  "distinct (map fst m) \<Longrightarrow> distinct (map fst (foldl increment m xs))"
  by (induction xs arbitrary: m) (auto simp: increment_distinct)

lemma foldl_increment_cnt: "cnt (foldl increment m xs) b = cnt m b + count_list xs b"
  by (induction xs arbitrary: m) (auto simp: increment_cnt)

lemma count_loop_keys:
  "fst ` set (foldl (\<lambda>m route. foldl increment m (airlines route)) m routes)
     = fst ` set m \<union> listed routes"
  by (induction routes arbitrary: m) (auto simp: foldl_increment_keys listed_def)

lemma count_loop_distinct:
  "distinct (map fst m) \<Longrightarrow>
   distinct (map fst (foldl (\<lambda>m route. foldl increment m (airlines route)) m routes))"
  by (induction routes arbitrary: m) (auto simp: foldl_increment_distinct)

lemma count_loop_cnt:
  "cnt (foldl (\<lambda>m route. foldl increment m (airlines route)) m routes) b
     = cnt m b + occurrences routes b"
  by (induction routes arbitrary: m) (auto simp: foldl_increment_cnt occurrences_def)

lemma countAirlines_keys: "fst ` set (countAirlines routes) = listed routes"
  by (simp add: countAirlines_def count_loop_keys)

lemma countAirlines_distinct: "distinct (map fst (countAirlines routes))"
  by (simp add: countAirlines_def count_loop_distinct)

lemma countAirlines_cnt: "cnt (countAirlines routes) b = occurrences routes b"
  using count_loop_cnt [of "[]" routes b] by (simp add: countAirlines_def cnt_def)

lemma countAirlines_entries:
  "set (countAirlines routes) = (\<lambda>a. (a, occurrences routes a)) ` listed routes"
proof -
  have d: "distinct (map fst (countAirlines routes))" by (rule countAirlines_distinct)
  { fix a c assume "(a, c) \<in> set (countAirlines routes)"
    then have "map_of (countAirlines routes) a = Some c" using d by simp
    then have "c = occurrences routes a"
      using countAirlines_cnt [of routes a] by (simp add: cnt_def) }
  moreover
  { fix a assume "a \<in> listed routes"
    then obtain c where ac: "(a, c) \<in> set (countAirlines routes)"
      using countAirlines_keys [of routes] by force
    then have "map_of (countAirlines routes) a = Some c" using d by simp
    then have "c = occurrences routes a"
      using countAirlines_cnt [of routes a] by (simp add: cnt_def)
    with ac have "(a, occurrences routes a) \<in> set (countAirlines routes)" by simp }
  moreover have "\<And>a c. (a, c) \<in> set (countAirlines routes) \<Longrightarrow> a \<in> listed routes"
    using countAirlines_keys [of routes] by force
  ultimately show ?thesis by (auto simp: image_iff)
qed

lemma Max_insert_max:
  "finite S \<Longrightarrow> Max (insert (max a b) S) = Max (insert a (insert b S))"
  by (cases "S = {}") (simp_all add: max.assoc)

lemma max_loop:
  "foldl (\<lambda>maxCount (a, c). if c > maxCount then c else maxCount) mx entries
     = Max (insert mx (snd ` set entries))"
proof (induction entries arbitrary: mx)
  case Nil
  then show ?case by simp
next
  case (Cons e entries)
  obtain a c where e: "e = (a, c)" by (cases e)
  have "(if c > mx then c else mx) = max mx c" by (auto simp: max_def)
  then show ?case
    using Cons.IH [of "max mx c"] by (simp add: e Max_insert_max)
qed

lemma enumerates_set: "enumerates enum \<Longrightarrow> set (enum m) = set m"
  unfolding enumerates_def by (metis set_mset_mset)

lemma enumerates_distinct:
  "enumerates enum \<Longrightarrow> distinct (map fst m) \<Longrightarrow> distinct (map fst (enum m))"
  unfolding enumerates_def by (metis mset_map mset_eq_imp_distinct_iff)

lemma findMaxCount_enum:
  assumes "enumerates enum"
  shows "findMaxCount (enum (countAirlines routes)) = maxOccurrences routes"
proof -
  have "snd ` set (countAirlines routes) = occurrences routes ` listed routes"
    by (force simp: countAirlines_entries image_iff)
  then show ?thesis
    by (simp add: findMaxCount_def max_loop enumerates_set [OF assms] maxOccurrences_def)
qed

lemma frequent_enum:
  fixes routes :: "Route list"
  assumes "enumerates enum"
  defines "frequent \<equiv> map fst (filter (\<lambda>(a, c). c = maxOccurrences routes) (enum (countAirlines routes)))"
  shows "distinct frequent"
    and "set frequent = {a \<in> listed routes. occurrences routes a = maxOccurrences routes}"
proof -
  have "distinct (map fst (enum (countAirlines routes)))"
    by (rule enumerates_distinct [OF assms(1) countAirlines_distinct])
  then show "distinct frequent"
    unfolding frequent_def by (rule distinct_map_filter)
  show "set frequent = {a \<in> listed routes. occurrences routes a = maxOccurrences routes}"
    unfolding frequent_def
    by (force simp: enumerates_set [OF assms(1)] countAirlines_entries image_iff)
qed

lemma minimizeAirlines_char:
  assumes "enumerates enum"
  shows "\<exists>frequent. distinct frequent
     \<and> set frequent = {a \<in> listed routes. occurrences routes a = maxOccurrences routes}
     \<and> minimizeAirlines enum routes =
         (if maxOccurrences routes = length routes
          then map (\<lambda>route. route\<lparr>airlines := frequent\<rparr>) routes else routes)"
proof -
  let ?f = "map fst (filter (\<lambda>(a, c). c = maxOccurrences routes) (enum (countAirlines routes)))"
  have "minimizeAirlines enum routes =
         (if maxOccurrences routes = length routes
          then map (\<lambda>route. route\<lparr>airlines := ?f\<rparr>) routes else routes)"
    by (simp add: minimizeAirlines_def Let_def findMaxCount_enum [OF assms])
  with frequent_enum [OF assms, of routes] show ?thesis by blast
qed


lemma count_list_distinct: "distinct xs \<Longrightarrow> count_list xs a = (if a \<in> set xs then 1 else 0)"
  by (induction xs) auto

lemma occurrences_Cons:
  "occurrences (route # routes) a = count_list (airlines route) a + occurrences routes a"
  by (simp add: occurrences_def)

lemma occurrences_hopsWith:
  "(\<forall>route\<in>set routes. distinct (airlines route)) \<Longrightarrow> occurrences routes a = hopsWith routes a"
proof (induction routes)
  case Nil
  then show ?case by (simp add: occurrences_def hopsWith_def)
next
  case (Cons route routes)
  then have "occurrences routes a = hopsWith routes a" by simp
  moreover have "count_list (airlines route) a = (if a \<in> set (airlines route) then 1 else 0)"
    using Cons.prems by (simp add: count_list_distinct)
  ultimately show ?case by (simp add: occurrences_Cons hopsWith_def)
qed

lemma occurrences_uniform:
  "occurrences (map (\<lambda>route. route\<lparr>airlines := f\<rparr>) routes) a = length routes * count_list f a"
  by (induction routes) (simp_all add: occurrences_Cons, simp add: occurrences_def)

lemma listed_uniform:
  "routes \<noteq> [] \<Longrightarrow> listed (map (\<lambda>route. route\<lparr>airlines := f\<rparr>) routes) = set f"
  by (cases routes) (auto simp: listed_def)

lemma hop_uniform:
  "set f = set f' \<Longrightarrow>
   map hop (map (\<lambda>route. route\<lparr>airlines := f\<rparr>) routes)
     = map hop (map (\<lambda>route. route\<lparr>airlines := f'\<rparr>) routes)"
  by (simp add: hop_def)


text \<open>
  Claim C4, as stated, at a concrete itinerary: airline X is listed twice on the hop from A to
  B, airline Y once on the hop from B to C. Each code appears on one hop only, so the largest
  number of hops any code appears on is 1, which differs from the number of hops, 2; yet the
  table counts X twice, the maximum count is 2, and both hops are rewritten to X.
\<close>

theorem minimizeAirlines_hops_counterexample:
  "Max (insert 0 (hopsWith
          [\<lparr>source = ''A'', target = ''B'', airlines = [''X'', ''X'']\<rparr>,
           \<lparr>source = ''B'', target = ''C'', airlines = [''Y'']\<rparr>]
        ` listed
          [\<lparr>source = ''A'', target = ''B'', airlines = [''X'', ''X'']\<rparr>,
           \<lparr>source = ''B'', target = ''C'', airlines = [''Y'']\<rparr>])) = 1
   \<and> length [\<lparr>source = ''A'', target = ''B'', airlines = [''X'', ''X'']\<rparr>,
           \<lparr>source = ''B'', target = ''C'', airlines = [''Y'']\<rparr>] = 2
   \<and> minimizeAirlines id
          [\<lparr>source = ''A'', target = ''B'', airlines = [''X'', ''X'']\<rparr>,
           \<lparr>source = ''B'', target = ''C'', airlines = [''Y'']\<rparr>]
       = [\<lparr>source = ''A'', target = ''B'', airlines = [''X'']\<rparr>,
          \<lparr>source = ''B'', target = ''C'', airlines = [''X'']\<rparr>]"
  by (simp add: hopsWith_def listed_def minimizeAirlines_def countAirlines_def findMaxCount_def)

text \<open>
  Claim C4, amended. For every itinerary, \<open>minimizeAirlines\<close> counts how many times each
  airline code is listed over all hops (a code listed twice on one hop counts twice), takes the
  maximum count, and rewrites every hop's airline list to the codes of maximum count, each once,
  exactly when that maximum equals the number of hops; otherwise it returns the itinerary
  unchanged. When no hop lists a code twice, the count of a code is the number of hops it
  appears on. This holds for every order in which the table is enumerated.
\<close>

theorem minimizeAirlines_counts_listings:
  assumes "enumerates enum"
  shows "(\<exists>frequent. distinct frequent
            \<and> set frequent = {a \<in> listed routes. occurrences routes a = maxOccurrences routes}
            \<and> minimizeAirlines enum routes =
                (if maxOccurrences routes = length routes
                 then map (\<lambda>route. route\<lparr>airlines := frequent\<rparr>) routes else routes))
       \<and> ((\<forall>route\<in>set routes. distinct (airlines route))
            \<longrightarrow> (\<forall>a. occurrences routes a = hopsWith routes a))"
  using minimizeAirlines_char [OF assms, of routes] occurrences_hopsWith [of routes]
  by blast

theorem minimizeAirlines_counts_listings_witness:
  "enumerates rev
   \<and> distinct (airlines \<lparr>source = ''A'', target = ''B'', airlines = [''X'', ''Y'']\<rparr>)
   \<and> distinct (airlines \<lparr>source = ''B'', target = ''C'', airlines = [''X'']\<rparr>)
   \<and> (\<exists>frequent. set frequent = {''X''}
          \<and> minimizeAirlines rev
               [\<lparr>source = ''A'', target = ''B'', airlines = [''X'', ''Y'']\<rparr>,
                \<lparr>source = ''B'', target = ''C'', airlines = [''X'']\<rparr>]
            = [\<lparr>source = ''A'', target = ''B'', airlines = frequent\<rparr>,
               \<lparr>source = ''B'', target = ''C'', airlines = frequent\<rparr>])
   \<and> occurrences [\<lparr>source = ''A'', target = ''B'', airlines = [''X'', ''Y'']\<rparr>,
                   \<lparr>source = ''B'', target = ''C'', airlines = [''X'']\<rparr>] ''X''
       = hopsWith [\<lparr>source = ''A'', target = ''B'', airlines = [''X'', ''Y'']\<rparr>,
                   \<lparr>source = ''B'', target = ''C'', airlines = [''X'']\<rparr>] ''X''"
proof -
  let ?ex = "[\<lparr>source = ''A'', target = ''B'', airlines = [''X'', ''Y'']\<rparr>,
              \<lparr>source = ''B'', target = ''C'', airlines = [''X'']\<rparr>]"
  have h: "enumerates rev" by (simp add: enumerates_def)
  have d: "\<forall>route\<in>set ?ex. distinct (airlines route)" by simp
  have l: "listed ?ex = {''X'', ''Y''}" by (simp add: listed_def insert_absorb insert_commute)
  have ox: "occurrences ?ex ''X'' = 2" and oy: "occurrences ?ex ''Y'' = 1"
    by (simp_all add: occurrences_def)
  have m: "maxOccurrences ?ex = 2" by (simp add: maxOccurrences_def l ox oy)
  have s: "{a \<in> listed ?ex. occurrences ?ex a = maxOccurrences ?ex} = {''X''}"
    unfolding l m using ox oy by auto
  from minimizeAirlines_counts_listings [OF h, of ?ex]
  obtain frequent where fr: "set frequent = {a \<in> listed ?ex. occurrences ?ex a = maxOccurrences ?ex}"
      "minimizeAirlines rev ?ex =
                (if maxOccurrences ?ex = length ?ex
                 then map (\<lambda>route. route\<lparr>airlines := frequent\<rparr>) ?ex else ?ex)"
    and occ: "(\<forall>route\<in>set ?ex. distinct (airlines route))
            \<longrightarrow> (\<forall>a. occurrences ?ex a = hopsWith ?ex a)"
    by blast
  have 1: "set frequent = {''X''}" using fr(1) s by simp
  have 2: "minimizeAirlines rev ?ex = [\<lparr>source = ''A'', target = ''B'', airlines = frequent\<rparr>,
               \<lparr>source = ''B'', target = ''C'', airlines = frequent\<rparr>]"
    unfolding fr(2) m by simp
  have 3: "occurrences ?ex ''X'' = hopsWith ?ex ''X''" using occ d by blast
  from 1 2 have "\<exists>frequent. set frequent = {''X''}
          \<and> minimizeAirlines rev ?ex
            = [\<lparr>source = ''A'', target = ''B'', airlines = frequent\<rparr>,
               \<lparr>source = ''B'', target = ''C'', airlines = frequent\<rparr>]" by blast
  with h 3 show ?thesis by simp
qed

text \<open>
  Claim C5, as stated, at a concrete itinerary: one hop from A to B listing X and Y, with a
  table that enumerates its entries most recently inserted first (a hash table may; the order
  is not fixed by the source). The first application returns the hop with the vector Y, X; the
  second inserts Y before X and returns the hop with the vector X, Y, a different
  \<^verbatim>\<open>vector<Route>\<close> under \<^verbatim>\<open>Route::operator==\<close>.
\<close>

theorem minimizeAirlines_order_counterexample:
  "enumerates rev
   \<and> minimizeAirlines rev [\<lparr>source = ''A'', target = ''B'', airlines = [''X'', ''Y'']\<rparr>]
       = [\<lparr>source = ''A'', target = ''B'', airlines = [''Y'', ''X'']\<rparr>]
   \<and> minimizeAirlines rev
         (minimizeAirlines rev [\<lparr>source = ''A'', target = ''B'', airlines = [''X'', ''Y'']\<rparr>])
       = [\<lparr>source = ''A'', target = ''B'', airlines = [''X'', ''Y'']\<rparr>]
   \<and> minimizeAirlines rev
         (minimizeAirlines rev [\<lparr>source = ''A'', target = ''B'', airlines = [''X'', ''Y'']\<rparr>])
       \<noteq> minimizeAirlines rev [\<lparr>source = ''A'', target = ''B'', airlines = [''X'', ''Y'']\<rparr>]"
  by (simp add: enumerates_def minimizeAirlines_def countAirlines_def findMaxCount_def)

text \<open>
  Claim C5, amended. \<open>minimizeAirlines\<close> is idempotent up to the order of the airline codes
  inside a hop: applied to its own result it returns the same itinerary, hop by hop the same
  endpoints and the same set of airline codes. The table of the second call is a new one; the
  statement holds whatever the enumeration orders of the two tables are.
\<close>

theorem minimizeAirlines_idempotent:
  assumes e1: "enumerates enum1" and e2: "enumerates enum2"
  shows "map hop (minimizeAirlines enum2 (minimizeAirlines enum1 routes))
           = map hop (minimizeAirlines enum1 routes)"
proof -
  obtain f where f: "distinct f"
      "set f = {a \<in> listed routes. occurrences routes a = maxOccurrences routes}"
      "minimizeAirlines enum1 routes =
         (if maxOccurrences routes = length routes
          then map (\<lambda>route. route\<lparr>airlines := f\<rparr>) routes else routes)"
    using minimizeAirlines_char [OF e1, of routes] by blast
  obtain f2 where f2:
      "minimizeAirlines enum2 routes =
         (if maxOccurrences routes = length routes
          then map (\<lambda>route. route\<lparr>airlines := f2\<rparr>) routes else routes)"
    using minimizeAirlines_char [OF e2, of routes] by blast
  show ?thesis
  proof (cases "maxOccurrences routes = length routes")
    case False
    then show ?thesis using f(3) f2 by simp
  next
    case True
    let ?r1 = "map (\<lambda>route. route\<lparr>airlines := f\<rparr>) routes"
    have r1: "minimizeAirlines enum1 routes = ?r1" using True f(3) by simp
    show ?thesis
    proof (cases "routes = []")
      case True
      then show ?thesis by (simp add: minimizeAirlines_def countAirlines_def Let_def)
    next
      case False
      then have pos: "0 < maxOccurrences routes" using True by simp
      have fin: "finite (occurrences routes ` listed routes)" by (simp add: listed_def)
      have "maxOccurrences routes \<in> insert 0 (occurrences routes ` listed routes)"
        unfolding maxOccurrences_def using fin by (intro Max_in) auto
      with pos have "maxOccurrences routes \<in> occurrences routes ` listed routes" by auto
      then have ne: "set f \<noteq> {}" using f(2) by auto
      have occ: "occurrences ?r1 a = (if a \<in> set f then length routes else 0)" for a
        by (simp add: occurrences_uniform count_list_distinct [OF f(1)])
      have lst: "listed ?r1 = set f" by (rule listed_uniform [OF False])
      have "occurrences ?r1 ` listed ?r1 = (\<lambda>a. length routes) ` set f"
        by (simp add: lst occ)
      also have "\<dots> = {length routes}" using ne by (simp add: image_constant_conv)
      finally have "occurrences ?r1 ` listed ?r1 = {length routes}" .
      then have mx: "maxOccurrences ?r1 = length ?r1"
        by (simp add: maxOccurrences_def)
      obtain g where g:
        "set g = {a \<in> listed ?r1. occurrences ?r1 a = maxOccurrences ?r1}"
        "minimizeAirlines enum2 ?r1 =
           (if maxOccurrences ?r1 = length ?r1
            then map (\<lambda>route. route\<lparr>airlines := g\<rparr>) ?r1 else ?r1)"
        using minimizeAirlines_char [OF e2, of ?r1] by blast
      have "set g = set f" using g(1) mx by (auto simp: lst occ)
      moreover have "minimizeAirlines enum2 ?r1 = map (\<lambda>route. route\<lparr>airlines := g\<rparr>) ?r1"
        using g(2) mx by simp
      ultimately show ?thesis
        by (simp add: r1 hop_def)
    qed
  qed
qed


theorem minimizeAirlines_idempotent_witness:
  "enumerates id \<and> enumerates rev
   \<and> map hop (minimizeAirlines rev (minimizeAirlines id
         [\<lparr>source = ''A'', target = ''B'', airlines = [''X'', ''Y'']\<rparr>,
          \<lparr>source = ''B'', target = ''C'', airlines = [''Y'', ''X'', ''Z'']\<rparr>]))
     = [(''A'', ''B'', {''X'', ''Y''}), (''B'', ''C'', {''X'', ''Y''})]"
proof -
  have h1: "enumerates id" and h2: "enumerates rev" by (simp_all add: enumerates_def)
  have "map hop (minimizeAirlines id
         [\<lparr>source = ''A'', target = ''B'', airlines = [''X'', ''Y'']\<rparr>,
          \<lparr>source = ''B'', target = ''C'', airlines = [''Y'', ''X'', ''Z'']\<rparr>])
     = [(''A'', ''B'', {''X'', ''Y''}), (''B'', ''C'', {''X'', ''Y''})]"
    by (simp add: minimizeAirlines_def countAirlines_def findMaxCount_def hop_def)
  with minimizeAirlines_idempotent [OF h1 h2] h1 h2 show ?thesis by simp
qed
section \<open>The claims about the best flight options\<close>

text \<open>
  Claim C1. For every pair of airport codes \<open>s\<close> and \<open>d\<close> present in the graph with at least
  one chain of flights from \<open>s\<close> to \<open>d\<close>, \<open>findBestFlightOptions\<close> returns a non-empty list of
  itineraries; each of them has as many hops as the breadth-first distance from \<open>s\<close> to
  \<open>d\<close>, a number of hops no chain of flights from \<open>s\<close> to \<open>d\<close> goes below and that the
  itinerary itself attains along a chain of flights of the graph; consecutive hops chain, the
  first hop leaves \<open>s\<close> and the last arrives at \<open>d\<close>. The vertices have distinct codes, as the
  vertex set of a graph keyed by airport code has.
\<close>

theorem findBestFlightOptions_shortest_hops:
  assumes "distinct (map info g)"
      and "findVertex g s = Inr sv" and "findVertex g d = Inr dv"
      and "walk (\<lambda>e. True) g q" and "hd q = s" and "last q = d"
  shows "\<exists>options. findBestFlightOptions g s d = Inr options \<and> options \<noteq> []
           \<and> (\<forall>it\<in>set options.
                 bfsDistance g s d = Some (length it)
                 \<and> chained it
                 \<and> (it \<noteq> [] \<longrightarrow> source (hd it) = s \<and> target (last it) = d)
                 \<and> (\<exists>p. walk (\<lambda>e. True) g p \<and> hd p = s \<and> last p = d
                        \<and> map source it = butlast p \<and> map target it = tl p)
                 \<and> (\<forall>p. walk (\<lambda>e. True) g p \<and> hd p = s \<and> last p = d
                        \<longrightarrow> Suc (length it) \<le> length p))"
proof -
  obtain options where o: "bestOptions (\<lambda>e. True) (\<lambda>a. True) g s d = Inr options"
    using bestOptions_total [OF assms(1-3)] by blast
  obtain p0 where "shortestWalk (\<lambda>e. True) g s d p0"
    using shortestWalk_exists [OF assms(4-6)] by blast
  then have ne: "options \<noteq> []" using bestOptions_complete [OF assms(1) o] by fastforce
  have "bfsDistance g s d = Some (length it)
        \<and> chained it
        \<and> (it \<noteq> [] \<longrightarrow> source (hd it) = s \<and> target (last it) = d)
        \<and> (\<exists>p. walk (\<lambda>e. True) g p \<and> hd p = s \<and> last p = d
               \<and> map source it = butlast p \<and> map target it = tl p)
        \<and> (\<forall>p. walk (\<lambda>e. True) g p \<and> hd p = s \<and> last p = d
               \<longrightarrow> Suc (length it) \<le> length p)"
    if mem: "it \<in> set options" for it
  proof -
    obtain p where p: "shortestWalk (\<lambda>e. True) g s d p" "routePath (\<lambda>a. True) g p = Inr it"
      "levelOf (bfsLayers (\<lambda>e. True) g [s] [s]) d = Some (length it)"
      using bestOptions_sound [OF assms(1) o mem] by blast
    have w: "walk (\<lambda>e. True) g p" "hd p = s" "last p = d"
      using p(1) by (auto simp: shortestWalk_def)
    have 1: "bfsDistance g s d = Some (length it)" using p(3) by (simp add: bfsDistance_def)
    have 2: "chained it" using chained_routePath [OF p(2)] .
    have 3: "it \<noteq> [] \<longrightarrow> source (hd it) = s \<and> target (last it) = d"
      using routePath_endpoints [OF p(2)] w by simp
    have 4: "\<exists>p. walk (\<lambda>e. True) g p \<and> hd p = s \<and> last p = d
               \<and> map source it = butlast p \<and> map target it = tl p"
      using w routePath_ends [OF p(2)] by blast
    have "length p = Suc (length it)" using routePath_length [OF p(2)] .
    then have 5: "\<forall>p. walk (\<lambda>e. True) g p \<and> hd p = s \<and> last p = d
               \<longrightarrow> Suc (length it) \<le> length p"
      using p(1) by (auto simp: shortestWalk_def)
    from 1 2 3 4 5 show ?thesis by blast
  qed
  then show ?thesis using o ne by (auto simp: findBestFlightOptions_bestOptions)
qed

theorem findBestFlightOptions_shortest_hops_witness:
  "distinct (map info
      [\<lparr>info = ''A'', adj = [\<lparr>dest = ''B'', airline = ''X'', distance = 100\<rparr>,
                              \<lparr>dest = ''C'', airline = ''X'', distance = 300\<rparr>]\<rparr>,
       \<lparr>info = ''B'', adj = [\<lparr>dest = ''C'', airline = ''Y'', distance = 150\<rparr>]\<rparr>,
       \<lparr>info = ''C'', adj = []\<rparr>])
   \<and> walk (\<lambda>e. True)
      [\<lparr>info = ''A'', adj = [\<lparr>dest = ''B'', airline = ''X'', distance = 100\<rparr>,
                              \<lparr>dest = ''C'', airline = ''X'', distance = 300\<rparr>]\<rparr>,
       \<lparr>info = ''B'', adj = [\<lparr>dest = ''C'', airline = ''Y'', distance = 150\<rparr>]\<rparr>,
       \<lparr>info = ''C'', adj = []\<rparr>] [''A'', ''B'', ''C'']
   \<and> findBestFlightOptions
      [\<lparr>info = ''A'', adj = [\<lparr>dest = ''B'', airline = ''X'', distance = 100\<rparr>,
                              \<lparr>dest = ''C'', airline = ''X'', distance = 300\<rparr>]\<rparr>,
       \<lparr>info = ''B'', adj = [\<lparr>dest = ''C'', airline = ''Y'', distance = 150\<rparr>]\<rparr>,
       \<lparr>info = ''C'', adj = []\<rparr>] ''A'' ''C''
       = Inr [[\<lparr>source = ''A'', target = ''C'', airlines = [''X'']\<rparr>]]
   \<and> bfsDistance
      [\<lparr>info = ''A'', adj = [\<lparr>dest = ''B'', airline = ''X'', distance = 100\<rparr>,
                              \<lparr>dest = ''C'', airline = ''X'', distance = 300\<rparr>]\<rparr>,
       \<lparr>info = ''B'', adj = [\<lparr>dest = ''C'', airline = ''Y'', distance = 150\<rparr>]\<rparr>,
       \<lparr>info = ''C'', adj = []\<rparr>] ''A'' ''C'' = Some 1"
proof -
  let ?g = "[\<lparr>info = ''A'', adj = [\<lparr>dest = ''B'', airline = ''X'', distance = 100\<rparr>,
                              \<lparr>dest = ''C'', airline = ''X'', distance = 300\<rparr>]\<rparr>,
       \<lparr>info = ''B'', adj = [\<lparr>dest = ''C'', airline = ''Y'', distance = 150\<rparr>]\<rparr>,
       \<lparr>info = ''C'', adj = []\<rparr>]"
  have h1: "distinct (map info ?g)" by simp
  have h2: "findVertex ?g ''A'' = Inr \<lparr>info = ''A'', adj = [\<lparr>dest = ''B'', airline = ''X'', distance = 100\<rparr>,
                              \<lparr>dest = ''C'', airline = ''X'', distance = 300\<rparr>]\<rparr>"
    by (simp add: findVertex_def)
  have h3: "findVertex ?g ''C'' = Inr \<lparr>info = ''C'', adj = []\<rparr>"
    by (simp add: findVertex_def)
  have h4: "walk (\<lambda>e. True) ?g [''A'', ''B'', ''C'']"
    by (simp add: neighbours_def findVertex_def)
  have h5: "hd [''A'', ''B'', ''C''] = ''A''" and h6: "last [''A'', ''B'', ''C''] = ''C''" by simp_all
  have e: "findBestFlightOptions ?g ''A'' ''C''
       = Inr [[\<lparr>source = ''A'', target = ''C'', airlines = [''X'']\<rparr>]]"
    by (simp add: findBestFlightOptions_def shortestPathsBFS_def shortestPathSet_def
        findVertex_def discovered_def neighbours_def predecessors_def
        bfsLayers_Nil bfsLayers_Cons)
  from findBestFlightOptions_shortest_hops [OF h1 h2 h3 h4 h5 h6] e
  have "bfsDistance ?g ''A'' ''C'' = Some 1" by auto
  with h1 h4 e show ?thesis by (intro conjI)
qed

text \<open>
  Claim C3, as stated, at a concrete graph: A has an edge to C operated by X and an edge to B
  operated by Y, and B has an edge to C operated by Y. With the airline set Y the filtered
  search returns the two-hop itinerary A, B, C; the unfiltered search returns only the direct
  hop from A to C, and restricting that hop to Y does not give the filtered itinerary.
\<close>

theorem findBestFlightOptions_airlines_counterexample:
  "findBestFlightOptions_airlines
      [\<lparr>info = ''A'', adj = [\<lparr>dest = ''C'', airline = ''X'', distance = 300\<rparr>,
                              \<lparr>dest = ''B'', airline = ''Y'', distance = 100\<rparr>]\<rparr>,
       \<lparr>info = ''B'', adj = [\<lparr>dest = ''C'', airline = ''Y'', distance = 150\<rparr>]\<rparr>,
       \<lparr>info = ''C'', adj = []\<rparr>] ''A'' ''C'' [''Y'']
     = Inr [[\<lparr>source = ''A'', target = ''B'', airlines = [''Y'']\<rparr>,
             \<lparr>source = ''B'', target = ''C'', airlines = [''Y'']\<rparr>]]
   \<and> findBestFlightOptions
      [\<lparr>info = ''A'', adj = [\<lparr>dest = ''C'', airline = ''X'', distance = 300\<rparr>,
                              \<lparr>dest = ''B'', airline = ''Y'', distance = 100\<rparr>]\<rparr>,
       \<lparr>info = ''B'', adj = [\<lparr>dest = ''C'', airline = ''Y'', distance = 150\<rparr>]\<rparr>,
       \<lparr>info = ''C'', adj = []\<rparr>] ''A'' ''C''
     = Inr [[\<lparr>source = ''A'', target = ''C'', airlines = [''X'']\<rparr>]]
   \<and> map (restrictTo [''Y'']) [\<lparr>source = ''A'', target = ''C'', airlines = [''X'']\<rparr>]
     \<noteq> [\<lparr>source = ''A'', target = ''B'', airlines = [''Y'']\<rparr>,
         \<lparr>source = ''B'', target = ''C'', airlines = [''Y'']\<rparr>]"
  by (simp add: findBestFlightOptions_def shortestPathsBFS_def shortestPathSet_def
        findBestFlightOptions_airlines_def shortestPathsBFS_airlines_def
        findVertex_def discovered_def neighbours_def predecessors_def
        bfsLayers_Nil bfsLayers_Cons)

text \<open>
  Claim C3, amended. For every non-empty airline set, no hop of an itinerary returned by the
  airline-filtered \<open>findBestFlightOptions\<close> carries an airline outside the set, and no returned
  itinerary has fewer hops than the itineraries of the unfiltered \<open>findBestFlightOptions\<close>,
  which exist. When a returned itinerary has exactly the unrestricted shortest hop count, it is
  some itinerary of the unfiltered result with each hop's airlines restricted to the set.
\<close>

theorem findBestFlightOptions_airlines_restricts:
  assumes "distinct (map info g)" and "selectedAirlines \<noteq> []"
      and "findBestFlightOptions_airlines g s d selectedAirlines = Inr filtered"
      and "it \<in> set filtered"
  shows "(\<forall>route\<in>set it. set (airlines route) \<subseteq> set selectedAirlines)
       \<and> (\<exists>options. findBestFlightOptions g s d = Inr options \<and> options \<noteq> []
             \<and> (\<forall>u\<in>set options. length u \<le> length it)
             \<and> (bfsDistance g s d = Some (length it)
                  \<longrightarrow> (\<exists>u\<in>set options. it = map (restrictTo selectedAirlines) u)))"
proof -
  let ?ok = "\<lambda>e. selectedAirlines = [] \<or> airline e \<in> set selectedAirlines"
  let ?keep = "\<lambda>a. a \<in> set selectedAirlines"
  have f: "bestOptions ?ok ?keep g s d = Inr filtered"
    using assms(3) by (simp add: findBestFlightOptions_airlines_bestOptions)
  obtain p where p: "shortestWalk ?ok g s d p" "routePath ?keep g p = Inr it"
    using bestOptions_sound [OF assms(1) f assms(4)] by blast
  have 1: "\<forall>route\<in>set it. set (airlines route) \<subseteq> set selectedAirlines"
    using routePath_keep [OF p(2)] by blast
  have wf: "walk ?ok g p" and hp: "hd p = s" and lp: "last p = d"
    using p(1) by (auto simp: shortestWalk_def)
  have w: "walk (\<lambda>e. True) g p" using walk_mono [OF _ wf, of "\<lambda>e. True"] by simp
  obtain sp where "shortestPathSet ?ok g s d = Inr sp"
    using f by (auto simp: bestOptions_def split: sum.splits)
  then obtain sv dv where v: "findVertex g s = Inr sv" "findVertex g d = Inr dv"
    using shortestPathSet_present by blast
  obtain options where o: "bestOptions (\<lambda>e. True) (\<lambda>a. True) g s d = Inr options"
    using bestOptions_total [OF assms(1) v] by blast
  obtain p0 where "shortestWalk (\<lambda>e. True) g s d p0"
    using shortestWalk_exists [OF w hp lp] by blast
  then have ne: "options \<noteq> []" using bestOptions_complete [OF assms(1) o] by fastforce
  have len: "length p = Suc (length it)" using routePath_length [OF p(2)] .
  have 2: "\<forall>u\<in>set options. length u \<le> length it"
  proof
    fix u assume "u \<in> set options"
    then obtain q where q: "shortestWalk (\<lambda>e. True) g s d q" "routePath (\<lambda>a. True) g q = Inr u"
      using bestOptions_sound [OF assms(1) o] by blast
    have "length q \<le> length p" using q(1) w hp lp by (auto simp: shortestWalk_def)
    then show "length u \<le> length it" using routePath_length [OF q(2)] len by simp
  qed
  have 3: "\<exists>u\<in>set options. it = map (restrictTo selectedAirlines) u"
    if b: "bfsDistance g s d = Some (length it)"
  proof -
    have "Suc (length it) \<le> length q" if "walk (\<lambda>e. True) g q" "hd q = s" "last q = d" for q
      using level_shortest [OF _ that] b by (simp add: bfsDistance_def)
    then have "shortestWalk (\<lambda>e. True) g s d p"
      using w hp lp len by (auto simp: shortestWalk_def)
    then obtain u where u: "routePath (\<lambda>a. True) g p = Inr u" "u \<in> set options"
      using bestOptions_complete [OF assms(1) o] by blast
    have "routePath ?keep g p = Inr (map (restrictTo selectedAirlines) u)"
      using routePath_restrict [OF u(1)] .
    then have "it = map (restrictTo selectedAirlines) u" using p(2) by simp
    with u(2) show ?thesis by blast
  qed
  show ?thesis using 1 2 3 o ne by (auto simp: findBestFlightOptions_bestOptions)
qed

theorem findBestFlightOptions_airlines_restricts_witness:
  "distinct (map info
      [\<lparr>info = ''A'', adj = [\<lparr>dest = ''B'', airline = ''X'', distance = 100\<rparr>,
                              \<lparr>dest = ''C'', airline = ''X'', distance = 300\<rparr>,
                              \<lparr>dest = ''C'', airline = ''Z'', distance = 300\<rparr>]\<rparr>,
       \<lparr>info = ''B'', adj = [\<lparr>dest = ''C'', airline = ''Y'', distance = 150\<rparr>]\<rparr>,
       \<lparr>info = ''C'', adj = []\<rparr>])
   \<and> [''X''] \<noteq> []
   \<and> findBestFlightOptions_airlines
      [\<lparr>info = ''A'', adj = [\<lparr>dest = ''B'', airline = ''X'', distance = 100\<rparr>,
                              \<lparr>dest = ''C'', airline = ''X'', distance = 300\<rparr>,
                              \<lparr>dest = ''C'', airline = ''Z'', distance = 300\<rparr>]\<rparr>,
       \<lparr>info = ''B'', adj = [\<lparr>dest = ''C'', airline = ''Y'', distance = 150\<rparr>]\<rparr>,
       \<lparr>info = ''C'', adj = []\<rparr>] ''A'' ''C'' [''X'']
     = Inr [[\<lparr>source = ''A'', target = ''C'', airlines = [''X'']\<rparr>]]
   \<and> bfsDistance
      [\<lparr>info = ''A'', adj = [\<lparr>dest = ''B'', airline = ''X'', distance = 100\<rparr>,
                              \<lparr>dest = ''C'', airline = ''X'', distance = 300\<rparr>,
                              \<lparr>dest = ''C'', airline = ''Z'', distance = 300\<rparr>]\<rparr>,
       \<lparr>info = ''B'', adj = [\<lparr>dest = ''C'', airline = ''Y'', distance = 150\<rparr>]\<rparr>,
       \<lparr>info = ''C'', adj = []\<rparr>] ''A'' ''C''
     = Some (length [\<lparr>source = ''A'', target = ''C'', airlines = [''X'']\<rparr>])
   \<and> (\<exists>options. findBestFlightOptions
      [\<lparr>info = ''A'', adj = [\<lparr>dest = ''B'', airline = ''X'', distance = 100\<rparr>,
                              \<lparr>dest = ''C'', airline = ''X'', distance = 300\<rparr>,
                              \<lparr>dest = ''C'', airline = ''Z'', distance = 300\<rparr>]\<rparr>,
       \<lparr>info = ''B'', adj = [\<lparr>dest = ''C'', airline = ''Y'', distance = 150\<rparr>]\<rparr>,
       \<lparr>info = ''C'', adj = []\<rparr>] ''A'' ''C'' = Inr options
        \<and> (\<exists>u\<in>set options. [\<lparr>source = ''A'', target = ''C'', airlines = [''X'']\<rparr>]
                               = map (restrictTo [''X'']) u))"
proof -
  define g :: Graph where "g = [\<lparr>info = ''A'', adj = [\<lparr>dest = ''B'', airline = ''X'', distance = 100\<rparr>,
                              \<lparr>dest = ''C'', airline = ''X'', distance = 300\<rparr>,
                              \<lparr>dest = ''C'', airline = ''Z'', distance = 300\<rparr>]\<rparr>,
       \<lparr>info = ''B'', adj = [\<lparr>dest = ''C'', airline = ''Y'', distance = 150\<rparr>]\<rparr>,
       \<lparr>info = ''C'', adj = []\<rparr>]"
  define it where "it = [\<lparr>source = ''A'', target = ''C'', airlines = [''X'']\<rparr>]"
  define sel where "sel = [''X'']"
  have h1: "distinct (map info g)" by (simp add: g_def)
  have h2: "sel \<noteq> []" by (simp add: sel_def)
  have h3: "findBestFlightOptions_airlines g ''A'' ''C'' sel = Inr [it]"
    by (simp add: g_def it_def sel_def findBestFlightOptions_airlines_def
        shortestPathsBFS_airlines_def shortestPathSet_def findVertex_def discovered_def
        neighbours_def predecessors_def bfsLayers_Nil bfsLayers_Cons)
  have h4: "it \<in> set [it]" by simp
  have h5: "bfsDistance g ''A'' ''C'' = Some (length it)"
    by (simp add: g_def it_def bfsDistance_def discovered_def neighbours_def findVertex_def
        bfsLayers_Nil bfsLayers_Cons)
  from findBestFlightOptions_airlines_restricts [OF h1 h2 h3 h4] h5
  have c: "\<exists>options. findBestFlightOptions g ''A'' ''C'' = Inr options
        \<and> (\<exists>u\<in>set options. it = map (restrictTo sel) u)"
    by blast
  show ?thesis using h1 h2 h3 h5 c unfolding g_def it_def sel_def by (intro conjI)
qed

text \<open>
  Claim C8. On the graph with exactly the two parallel edges from A to B, operated by X and by
  Y, \<open>findBestFlightOptions\<close> returns exactly one itinerary, the single hop from A to B with
  the airlines X and Y. In general the result lists no itinerary twice, two itineraries of a
  result that visit the same airports are the same itinerary, and every hop lists the airline
  of each edge between its two airports: parallel edges are collapsed into one route.
\<close>

theorem findBestFlightOptions_parallel_edges:
  "findBestFlightOptions
      [\<lparr>info = ''A'', adj = [\<lparr>dest = ''B'', airline = ''X'', distance = 100\<rparr>,
                              \<lparr>dest = ''B'', airline = ''Y'', distance = 100\<rparr>]\<rparr>,
       \<lparr>info = ''B'', adj = []\<rparr>] ''A'' ''B''
     = Inr [[\<lparr>source = ''A'', target = ''B'', airlines = [''X'', ''Y'']\<rparr>]]
   \<and> (\<forall>g s d options. findBestFlightOptions g s d = Inr options \<longrightarrow>
          distinct options
          \<and> (\<forall>i\<in>set options. \<forall>j\<in>set options. map target i = map target j \<longrightarrow> i = j)
          \<and> (\<forall>it\<in>set options. \<forall>route\<in>set it.
                \<exists>v. findVertex g (source route) = Inr v
                  \<and> airlines route
                      = map airline (filter (\<lambda>edge. dest edge = target route) (adj v))))"
proof (intro conjI allI impI)
  show "findBestFlightOptions
      [\<lparr>info = ''A'', adj = [\<lparr>dest = ''B'', airline = ''X'', distance = 100\<rparr>,
                              \<lparr>dest = ''B'', airline = ''Y'', distance = 100\<rparr>]\<rparr>,
       \<lparr>info = ''B'', adj = []\<rparr>] ''A'' ''B''
     = Inr [[\<lparr>source = ''A'', target = ''B'', airlines = [''X'', ''Y'']\<rparr>]]"
    by (simp add: findBestFlightOptions_def shortestPathsBFS_def shortestPathSet_def
        findVertex_def discovered_def neighbours_def predecessors_def
        bfsLayers_Nil bfsLayers_Cons)
next
  fix g s d options
  assume "findBestFlightOptions g s d = Inr options"
  then have o: "bestOptions (\<lambda>e. True) (\<lambda>a. True) g s d = Inr options"
    by (simp add: findBestFlightOptions_bestOptions)
  show "distinct options" using bestOptions_distinct [OF o] .
  show "\<forall>i\<in>set options. \<forall>j\<in>set options. map target i = map target j \<longrightarrow> i = j"
    using bestOptions_same_airports [OF o] by blast
  show "\<forall>it\<in>set options. \<forall>route\<in>set it.
                \<exists>v. findVertex g (source route) = Inr v
                  \<and> airlines route
                      = map airline (filter (\<lambda>edge. dest edge = target route) (adj v))"
  proof (intro ballI)
    fix it route assume it: "it \<in> set options" and r: "route \<in> set it"
    obtain p where "routePath (\<lambda>a. True) g p = Inr it" using bestOptions_hd [OF o it] by blast
    from routePath_lists_every_airline [OF this r]
    show "\<exists>v. findVertex g (source route) = Inr v
                  \<and> airlines route
                      = map airline (filter (\<lambda>edge. dest edge = target route) (adj v))"
      by simp
  qed
qed

theorem findBestFlightOptions_parallel_edges_witness:
  "findBestFlightOptions
      [\<lparr>info = ''A'', adj = [\<lparr>dest = ''B'', airline = ''X'', distance = 100\<rparr>,
                              \<lparr>dest = ''B'', airline = ''Y'', distance = 100\<rparr>]\<rparr>,
       \<lparr>info = ''B'', adj = []\<rparr>] ''A'' ''B''
     = Inr [[\<lparr>source = ''A'', target = ''B'', airlines = [''X'', ''Y'']\<rparr>]]
   \<and> distinct [[\<lparr>source = ''A'', target = ''B'', airlines = [''X'', ''Y'']\<rparr>]]
   \<and> (\<exists>v. findVertex
      [\<lparr>info = ''A'', adj = [\<lparr>dest = ''B'', airline = ''X'', distance = 100\<rparr>,
                              \<lparr>dest = ''B'', airline = ''Y'', distance = 100\<rparr>]\<rparr>,
       \<lparr>info = ''B'', adj = []\<rparr>] ''A'' = Inr v
         \<and> [''X'', ''Y''] = map airline (filter (\<lambda>edge. dest edge = ''B'') (adj v)))"
proof -
  let ?g = "[\<lparr>info = ''A'', adj = [\<lparr>dest = ''B'', airline = ''X'', distance = 100\<rparr>,
                              \<lparr>dest = ''B'', airline = ''Y'', distance = 100\<rparr>]\<rparr>,
       \<lparr>info = ''B'', adj = []\<rparr>]"
  let ?r = "\<lparr>source = ''A'', target = ''B'', airlines = [''X'', ''Y'']\<rparr>"
  note t = findBestFlightOptions_parallel_edges
  from t have e: "findBestFlightOptions ?g ''A'' ''B'' = Inr [[?r]]" by (rule conjunct1)
  from t have "findBestFlightOptions ?g ''A'' ''B'' = Inr [[?r]] \<longrightarrow>
          distinct [[?r]]
          \<and> (\<forall>i\<in>set [[?r]]. \<forall>j\<in>set [[?r]]. map target i = map target j \<longrightarrow> i = j)
          \<and> (\<forall>it\<in>set [[?r]]. \<forall>route\<in>set it.
                \<exists>v. findVertex ?g (source route) = Inr v
                  \<and> airlines route
                      = map airline (filter (\<lambda>edge. dest edge = target route) (adj v)))"
    by blast
  with e have "distinct [[?r]]" and "\<forall>it\<in>set [[?r]]. \<forall>route\<in>set it.
                \<exists>v. findVertex ?g (source route) = Inr v
                  \<and> airlines route
                      = map airline (filter (\<lambda>edge. dest edge = target route) (adj v))"
    by blast+
  then show ?thesis using e by simp
qed

section \<open>The claims about findSmallestDistance\<close>

text \<open>
  Claim C7. For every pair of present airport codes \<open>s\<close> and \<open>d\<close>, \<open>findSmallestDistance\<close>
  returns the minimum, over the itineraries of \<open>findBestFlightOptions\<close>, of the sum of the
  per-hop distances, and \<^verbatim>\<open>DBL_MAX\<close> when no path exists; on the graph with the edges A to B
  (X, 100), B to C (Y, 150) and A to C (X, 300) it returns 300 from A to C. The sum of an
  itinerary is the one the machine computes: the distances of its hops added to \<^verbatim>\<open>0.0\<close> in
  order with the addition \<open>add\<close> of doubles, whatever its rounding. The running minimum starts
  at \<^verbatim>\<open>DBL_MAX\<close> and is replaced by a strictly smaller total only, so the result is the minimum
  of \<^verbatim>\<open>DBL_MAX\<close> and the totals; it is the minimum of the totals whenever they are at most
  \<^verbatim>\<open>DBL_MAX\<close>, as every finite \<^verbatim>\<open>double\<close> is. On the concrete graph the one total is
  \<^verbatim>\<open>0.0 + 300.0\<close>, which is 300 in doubles as it is in the reals. Present means: a vertex of
  the graph, whose vertices have distinct codes and are all keys of the airports table.
\<close>

theorem findSmallestDistance_minimum:
  assumes "distinct (map info (flights fms))"
      and "\<forall>v\<in>set (flights fms). airports fms (info v) \<noteq> None"
      and "findVertex (flights fms) s = Inr sv" and "findVertex (flights fms) d = Inr dv"
  shows "(\<exists>options. findBestFlightOptions (flights fms) s d = Inr options
            \<and> findSmallestDistance add fms s d
                = Inr (Min (insert DBL_MAX (itineraryDistance add (flights fms) ` set options)))
            \<and> (options \<noteq> [] \<and> (\<forall>it\<in>set options. itineraryDistance add (flights fms) it \<le> DBL_MAX)
                 \<longrightarrow> findSmallestDistance add fms s d
                      = Inr (Min (itineraryDistance add (flights fms) ` set options)))
            \<and> (\<not> (\<exists>p. walk (\<lambda>e. True) (flights fms) p \<and> hd p = s \<and> last p = d)
                 \<longrightarrow> options = [] \<and> findSmallestDistance add fms s d = Inr DBL_MAX))
       \<and> (add 0 300 = 300 \<longrightarrow>
            findSmallestDistance add
            \<lparr>airports = [''A'' \<mapsto> \<lparr>name = ''Alpha'', city = ''Porto'', country = ''Portugal''\<rparr>,
                         ''B'' \<mapsto> \<lparr>name = ''Bravo'', city = ''Lisbon'', country = ''Portugal''\<rparr>,
                         ''C'' \<mapsto> \<lparr>name = ''Charlie'', city = ''Madrid'', country = ''Spain''\<rparr>],
             flights = [\<lparr>info = ''A'', adj = [\<lparr>dest = ''B'', airline = ''X'', distance = 100\<rparr>,
                                               \<lparr>dest = ''C'', airline = ''X'', distance = 300\<rparr>]\<rparr>,
                        \<lparr>info = ''B'', adj = [\<lparr>dest = ''C'', airline = ''Y'', distance = 150\<rparr>]\<rparr>,
                        \<lparr>info = ''C'', adj = []\<rparr>]\<rparr> ''A'' ''C'' = Inr 300)"
proof (rule conjI)
  let ?g = "flights fms"
  obtain options where o: "findBestFlightOptions ?g s d = Inr options"
    using bestOptions_total [OF assms(1,3,4)] by (auto simp: findBestFlightOptions_bestOptions)
  have m: "findSmallestDistance add fms s d
             = Inr (Min (insert DBL_MAX (itineraryDistance add ?g ` set options)))"
    using findSmallestDistance_min [OF assms o] .
  have 1: "findSmallestDistance add fms s d = Inr (Min (itineraryDistance add ?g ` set options))"
    if ne: "options \<noteq> []" and le: "\<forall>it\<in>set options. itineraryDistance add ?g it \<le> DBL_MAX"
  proof -
    let ?S = "itineraryDistance add ?g ` set options"
    have f: "finite ?S" "?S \<noteq> {}" using ne by simp_all
    then have "Min ?S \<in> ?S" by (rule Min_in)
    then have l: "Min ?S \<le> DBL_MAX" using le by auto
    have "Min (insert DBL_MAX ?S) = min DBL_MAX (Min ?S)" using f by (rule Min_insert)
    also have "\<dots> = Min ?S" using l by (rule min_absorb2)
    finally show ?thesis using m by simp
  qed
  have 2: "options = [] \<and> findSmallestDistance add fms s d = Inr DBL_MAX"
    if "\<not> (\<exists>p. walk (\<lambda>e. True) ?g p \<and> hd p = s \<and> last p = d)"
  proof -
    obtain sp where sp: "shortestPathSet (\<lambda>e. True) ?g s d = Inr sp"
      and c: "collectPaths (\<lambda>a. True) ?g [] sp = Inr options"
      using o by (auto simp: findBestFlightOptions_def shortestPathsBFS_def split: sum.splits)
    have "sp = []" using shortestPathSet_empty_iff [OF assms(1) sp] that by simp
    then have "options = []" using c by simp
    then show ?thesis using m by simp
  qed
  show "\<exists>options. findBestFlightOptions ?g s d = Inr options
            \<and> findSmallestDistance add fms s d
                = Inr (Min (insert DBL_MAX (itineraryDistance add ?g ` set options)))
            \<and> (options \<noteq> [] \<and> (\<forall>it\<in>set options. itineraryDistance add ?g it \<le> DBL_MAX)
                 \<longrightarrow> findSmallestDistance add fms s d
                      = Inr (Min (itineraryDistance add ?g ` set options)))
            \<and> (\<not> (\<exists>p. walk (\<lambda>e. True) ?g p \<and> hd p = s \<and> last p = d)
                 \<longrightarrow> options = [] \<and> findSmallestDistance add fms s d = Inr DBL_MAX)"
    using o m 1 2 by blast
next
  show "add 0 300 = 300 \<longrightarrow>
            findSmallestDistance add
            \<lparr>airports = [''A'' \<mapsto> \<lparr>name = ''Alpha'', city = ''Porto'', country = ''Portugal''\<rparr>,
                         ''B'' \<mapsto> \<lparr>name = ''Bravo'', city = ''Lisbon'', country = ''Portugal''\<rparr>,
                         ''C'' \<mapsto> \<lparr>name = ''Charlie'', city = ''Madrid'', country = ''Spain''\<rparr>],
             flights = [\<lparr>info = ''A'', adj = [\<lparr>dest = ''B'', airline = ''X'', distance = 100\<rparr>,
                                               \<lparr>dest = ''C'', airline = ''X'', distance = 300\<rparr>]\<rparr>,
                        \<lparr>info = ''B'', adj = [\<lparr>dest = ''C'', airline = ''Y'', distance = 150\<rparr>]\<rparr>,
                        \<lparr>info = ''C'', adj = []\<rparr>]\<rparr> ''A'' ''C'' = Inr 300"
  proof
    assume a: "add 0 300 = 300"
    show "findSmallestDistance add
            \<lparr>airports = [''A'' \<mapsto> \<lparr>name = ''Alpha'', city = ''Porto'', country = ''Portugal''\<rparr>,
                         ''B'' \<mapsto> \<lparr>name = ''Bravo'', city = ''Lisbon'', country = ''Portugal''\<rparr>,
                         ''C'' \<mapsto> \<lparr>name = ''Charlie'', city = ''Madrid'', country = ''Spain''\<rparr>],
             flights = [\<lparr>info = ''A'', adj = [\<lparr>dest = ''B'', airline = ''X'', distance = 100\<rparr>,
                                               \<lparr>dest = ''C'', airline = ''X'', distance = 300\<rparr>]\<rparr>,
                        \<lparr>info = ''B'', adj = [\<lparr>dest = ''C'', airline = ''Y'', distance = 150\<rparr>]\<rparr>,
                        \<lparr>info = ''C'', adj = []\<rparr>]\<rparr> ''A'' ''C'' = Inr 300"
      by (simp add: findSmallestDistance_def findBestFlightOptions_def shortestPathsBFS_def
          shortestPathSet_def findVertex_def discovered_def neighbours_def predecessors_def
          bfsLayers_Nil bfsLayers_Cons DBL_MAX_large printRoute_def a)
  qed
qed

theorem findSmallestDistance_minimum_witness:
  "distinct (map info [\<lparr>info = ''A'', adj = [\<lparr>dest = ''B'', airline = ''X'', distance = 100\<rparr>,
                                               \<lparr>dest = ''C'', airline = ''X'', distance = 300\<rparr>]\<rparr>,
                        \<lparr>info = ''B'', adj = [\<lparr>dest = ''C'', airline = ''Y'', distance = 150\<rparr>]\<rparr>,
                        \<lparr>info = ''C'', adj = []\<rparr>])
   \<and> (\<exists>options. findBestFlightOptions
                       [\<lparr>info = ''A'', adj = [\<lparr>dest = ''B'', airline = ''X'', distance = 100\<rparr>,
                                               \<lparr>dest = ''C'', airline = ''X'', distance = 300\<rparr>]\<rparr>,
                        \<lparr>info = ''B'', adj = [\<lparr>dest = ''C'', airline = ''Y'', distance = 150\<rparr>]\<rparr>,
                        \<lparr>info = ''C'', adj = []\<rparr>] ''A'' ''C'' = Inr options
         \<and> options \<noteq> []
         \<and> Min (itineraryDistance (+)
                       [\<lparr>info = ''A'', adj = [\<lparr>dest = ''B'', airline = ''X'', distance = 100\<rparr>,
                                               \<lparr>dest = ''C'', airline = ''X'', distance = 300\<rparr>]\<rparr>,
                        \<lparr>info = ''B'', adj = [\<lparr>dest = ''C'', airline = ''Y'', distance = 150\<rparr>]\<rparr>,
                        \<lparr>info = ''C'', adj = []\<rparr>] ` set options) = 300)
   \<and> findSmallestDistance (+)
            \<lparr>airports = [''A'' \<mapsto> \<lparr>name = ''Alpha'', city = ''Porto'', country = ''Portugal''\<rparr>,
                         ''B'' \<mapsto> \<lparr>name = ''Bravo'', city = ''Lisbon'', country = ''Portugal''\<rparr>,
                         ''C'' \<mapsto> \<lparr>name = ''Charlie'', city = ''Madrid'', country = ''Spain''\<rparr>],
             flights = [\<lparr>info = ''A'', adj = [\<lparr>dest = ''B'', airline = ''X'', distance = 100\<rparr>,
                                               \<lparr>dest = ''C'', airline = ''X'', distance = 300\<rparr>]\<rparr>,
                        \<lparr>info = ''B'', adj = [\<lparr>dest = ''C'', airline = ''Y'', distance = 150\<rparr>]\<rparr>,
                        \<lparr>info = ''C'', adj = []\<rparr>]\<rparr> ''C'' ''A'' = Inr DBL_MAX
   \<and> findSmallestDistance (+)
            \<lparr>airports = [''A'' \<mapsto> \<lparr>name = ''Alpha'', city = ''Porto'', country = ''Portugal''\<rparr>,
                         ''B'' \<mapsto> \<lparr>name = ''Bravo'', city = ''Lisbon'', country = ''Portugal''\<rparr>,
                         ''C'' \<mapsto> \<lparr>name = ''Charlie'', city = ''Madrid'', country = ''Spain''\<rparr>],
             flights = [\<lparr>info = ''A'', adj = [\<lparr>dest = ''B'', airline = ''X'', distance = 100\<rparr>,
                                               \<lparr>dest = ''C'', airline = ''X'', distance = 300\<rparr>]\<rparr>,
                        \<lparr>info = ''B'', adj = [\<lparr>dest = ''C'', airline = ''Y'', distance = 150\<rparr>]\<rparr>,
                        \<lparr>info = ''C'', adj = []\<rparr>]\<rparr> ''A'' ''C''
       = Inr (Min (itineraryDistance (+)
                       [\<lparr>info = ''A'', adj = [\<lparr>dest = ''B'', airline = ''X'', distance = 100\<rparr>,
                                               \<lparr>dest = ''C'', airline = ''X'', distance = 300\<rparr>]\<rparr>,
                        \<lparr>info = ''B'', adj = [\<lparr>dest = ''C'', airline = ''Y'', distance = 150\<rparr>]\<rparr>,
                        \<lparr>info = ''C'', adj = []\<rparr>]
                   ` set [[\<lparr>source = ''A'', target = ''C'', airlines = [''X'']\<rparr>]]))
   \<and> (0::real) + 300 = 300
   \<and> findSmallestDistance (+)
            \<lparr>airports = [''A'' \<mapsto> \<lparr>name = ''Alpha'', city = ''Porto'', country = ''Portugal''\<rparr>,
                         ''B'' \<mapsto> \<lparr>name = ''Bravo'', city = ''Lisbon'', country = ''Portugal''\<rparr>,
                         ''C'' \<mapsto> \<lparr>name = ''Charlie'', city = ''Madrid'', country = ''Spain''\<rparr>],
             flights = [\<lparr>info = ''A'', adj = [\<lparr>dest = ''B'', airline = ''X'', distance = 100\<rparr>,
                                               \<lparr>dest = ''C'', airline = ''X'', distance = 300\<rparr>]\<rparr>,
                        \<lparr>info = ''B'', adj = [\<lparr>dest = ''C'', airline = ''Y'', distance = 150\<rparr>]\<rparr>,
                        \<lparr>info = ''C'', adj = []\<rparr>]\<rparr> ''A'' ''C'' = Inr 300"
proof -
  define g :: Graph where "g = [\<lparr>info = ''A'', adj = [\<lparr>dest = ''B'', airline = ''X'', distance = 100\<rparr>,
                                               \<lparr>dest = ''C'', airline = ''X'', distance = 300\<rparr>]\<rparr>,
                        \<lparr>info = ''B'', adj = [\<lparr>dest = ''C'', airline = ''Y'', distance = 150\<rparr>]\<rparr>,
                        \<lparr>info = ''C'', adj = []\<rparr>]"
  define tbl where "tbl = [''A'' \<mapsto> \<lparr>name = ''Alpha'', city = ''Porto'', country = ''Portugal''\<rparr>,
                         ''B'' \<mapsto> \<lparr>name = ''Bravo'', city = ''Lisbon'', country = ''Portugal''\<rparr>,
                         ''C'' \<mapsto> \<lparr>name = ''Charlie'', city = ''Madrid'', country = ''Spain''\<rparr>]"
  define fms where "fms = \<lparr>airports = tbl, flights = g\<rparr>"
  have h1: "distinct (map info (flights fms))" by (simp add: fms_def g_def)
  have h2: "\<forall>v\<in>set (flights fms). airports fms (info v) \<noteq> None"
    by (simp add: fms_def g_def tbl_def)
  have hA: "findVertex (flights fms) ''A''
             = Inr \<lparr>info = ''A'', adj = [\<lparr>dest = ''B'', airline = ''X'', distance = 100\<rparr>,
                                         \<lparr>dest = ''C'', airline = ''X'', distance = 300\<rparr>]\<rparr>"
    and hC: "findVertex (flights fms) ''C'' = Inr \<lparr>info = ''C'', adj = []\<rparr>"
    by (simp_all add: fms_def g_def findVertex_def)
  have e: "findBestFlightOptions g ''A'' ''C''
             = Inr [[\<lparr>source = ''A'', target = ''C'', airlines = [''X'']\<rparr>]]"
    by (simp add: g_def findBestFlightOptions_def shortestPathsBFS_def shortestPathSet_def
        findVertex_def discovered_def neighbours_def predecessors_def
        bfsLayers_Nil bfsLayers_Cons)
  have i: "itineraryDistance (+) g [\<lparr>source = ''A'', target = ''C'', airlines = [''X'']\<rparr>] = 300"
    by (simp add: g_def itineraryDistance_def hopLength_def findVertex_def)
  have a: "\<exists>options. findBestFlightOptions g ''A'' ''C'' = Inr options \<and> options \<noteq> []
         \<and> Min (itineraryDistance (+) g ` set options) = 300"
    using e i by simp
  have nw: "\<not> (\<exists>p. walk (\<lambda>e. True) (flights fms) p \<and> hd p = ''C'' \<and> last p = ''A'')"
  proof
    assume "\<exists>p. walk (\<lambda>e. True) (flights fms) p \<and> hd p = ''C'' \<and> last p = ''A''"
    then obtain p where p: "walk (\<lambda>e. True) (flights fms) p" "hd p = ''C''" "last p = ''A''" by blast
    have n: "neighbours (\<lambda>e. True) (flights fms) ''C'' = []"
      by (simp add: fms_def g_def neighbours_def findVertex_def)
    show False
    proof (cases p)
      case Nil
      then show False using p(1) by simp
    next
      case (Cons x xs)
      then have x: "x = ''C''" using p(2) by simp
      show False
      proof (cases xs)
        case Nil
        then show False using Cons x p(3) by simp
      next
        case (Cons y ys)
        then show False using \<open>p = x # xs\<close> x p(1) n by simp
      qed
    qed
  qed
  from findSmallestDistance_minimum [OF h1 h2 hC hA, of "(+)"] nw
  have b: "findSmallestDistance (+) fms ''C'' ''A'' = Inr DBL_MAX" by blast
  from findSmallestDistance_minimum [OF h1 h2 hA hC, of "(+)"]
  obtain options where o: "findBestFlightOptions (flights fms) ''A'' ''C'' = Inr options"
    and imp: "options \<noteq> [] \<and> (\<forall>it\<in>set options. itineraryDistance (+) (flights fms) it \<le> DBL_MAX)
                 \<longrightarrow> findSmallestDistance (+) fms ''A'' ''C''
                      = Inr (Min (itineraryDistance (+) (flights fms) ` set options))"
    by blast
  have fg: "flights fms = g" by (simp add: fms_def)
  have oe: "options = [[\<lparr>source = ''A'', target = ''C'', airlines = [''X'']\<rparr>]]"
    using o e by (simp add: fg)
  have "options \<noteq> [] \<and> (\<forall>it\<in>set options. itineraryDistance (+) (flights fms) it \<le> DBL_MAX)"
    using i DBL_MAX_large(1) by (simp add: oe fg)
  with imp have c: "findSmallestDistance (+) fms ''A'' ''C''
       = Inr (Min (itineraryDistance (+) g ` set [[\<lparr>source = ''A'', target = ''C'', airlines = [''X'']\<rparr>]]))"
    by (simp add: oe fg)
  have z: "(0::real) + 300 = 300" by simp
  from findSmallestDistance_minimum [OF h1 h2 hA hC, of "(+)"] z
  have t: "findSmallestDistance (+) fms ''A'' ''C'' = Inr 300"
    unfolding fms_def g_def tbl_def by blast
  show ?thesis using h1 a b c z t unfolding fms_def g_def tbl_def by simp
qed

text \<open>
  Claim C9, as stated, ends with: the edge whose distance a hop contributes is ``not
  necessarily an edge of an airline listed on the Route''. Inside \<open>findSmallestDistance\<close> the
  routes are those that \<open>findBestFlightOptions\<close> builds, and such a route lists the airline of
  every edge from its source to its target: no itinerary of \<open>findBestFlightOptions\<close> has a hop
  with an edge between its two airports whose airline the hop does not list. On the graph with
  the edges A to C (Z, 50), A to B (X, 500) and A to B (Y, 100), in this order, the one hop from
  A to B lists X and Y, and the first edge from A to B is the edge of X.
\<close>

theorem findSmallestDistance_edge_airline_listed:
  "\<not> (\<exists>g s d options it route src edge.
          findBestFlightOptions g s d = Inr options \<and> it \<in> set options \<and> route \<in> set it
        \<and> findVertex g (source route) = Inr src
        \<and> edge \<in> set (adj src) \<and> dest edge = target route
        \<and> airline edge \<notin> set (airlines route))
   \<and> findBestFlightOptions
        [\<lparr>info = ''A'', adj = [\<lparr>dest = ''C'', airline = ''Z'', distance = 50\<rparr>,
                                       \<lparr>dest = ''B'', airline = ''X'', distance = 500\<rparr>,
                                       \<lparr>dest = ''B'', airline = ''Y'', distance = 100\<rparr>]\<rparr>,
               \<lparr>info = ''B'', adj = []\<rparr>, \<lparr>info = ''C'', adj = []\<rparr>] ''A'' ''B''
        = Inr [[\<lparr>source = ''A'', target = ''B'', airlines = [''X'', ''Y'']\<rparr>]]
   \<and> findVertex
        [\<lparr>info = ''A'', adj = [\<lparr>dest = ''C'', airline = ''Z'', distance = 50\<rparr>,
                                       \<lparr>dest = ''B'', airline = ''X'', distance = 500\<rparr>,
                                       \<lparr>dest = ''B'', airline = ''Y'', distance = 100\<rparr>]\<rparr>,
               \<lparr>info = ''B'', adj = []\<rparr>, \<lparr>info = ''C'', adj = []\<rparr>] ''A''
        = Inr \<lparr>info = ''A'', adj = [\<lparr>dest = ''C'', airline = ''Z'', distance = 50\<rparr>,
                                       \<lparr>dest = ''B'', airline = ''X'', distance = 500\<rparr>,
                                       \<lparr>dest = ''B'', airline = ''Y'', distance = 100\<rparr>]\<rparr>
   \<and> find (\<lambda>edge. dest edge = ''B'')
        (adj \<lparr>info = ''A'', adj = [\<lparr>dest = ''C'', airline = ''Z'', distance = 50\<rparr>,
                                       \<lparr>dest = ''B'', airline = ''X'', distance = 500\<rparr>,
                                       \<lparr>dest = ''B'', airline = ''Y'', distance = 100\<rparr>]\<rparr>)
        = Some \<lparr>dest = ''B'', airline = ''X'', distance = 500\<rparr>"
proof (intro conjI)
  show "\<not> (\<exists>g s d options it route src edge.
          findBestFlightOptions g s d = Inr options \<and> it \<in> set options \<and> route \<in> set it
        \<and> findVertex g (source route) = Inr src
        \<and> edge \<in> set (adj src) \<and> dest edge = target route
        \<and> airline edge \<notin> set (airlines route))"
  proof
    assume "\<exists>g s d options it route src edge.
          findBestFlightOptions g s d = Inr options \<and> it \<in> set options \<and> route \<in> set it
        \<and> findVertex g (source route) = Inr src
        \<and> edge \<in> set (adj src) \<and> dest edge = target route
        \<and> airline edge \<notin> set (airlines route)"
    then obtain g s d options it route src edge where
      o: "findBestFlightOptions g s d = Inr options" and i: "it \<in> set options"
      and r: "route \<in> set it" and v: "findVertex g (source route) = Inr src"
      and e: "edge \<in> set (adj src)" "dest edge = target route"
      and n: "airline edge \<notin> set (airlines route)"
      by blast
    have o': "bestOptions (\<lambda>e. True) (\<lambda>a. True) g s d = Inr options"
      using o by (simp add: findBestFlightOptions_bestOptions)
    obtain p where p: "routePath (\<lambda>a. True) g p = Inr it"
      using bestOptions_hd [OF o' i] by blast
    obtain w where w: "findVertex g (source route) = Inr w"
      "airlines route = map airline (filter (\<lambda>edge. dest edge = target route \<and> True) (adj w))"
      using routePath_lists_every_airline [OF p r] by blast
    have "airlines route = map airline (filter (\<lambda>edge. dest edge = target route) (adj src))"
      using w v by simp
    then have "airline edge \<in> set (airlines route)" using e by auto
    with n show False by simp
  qed
next
  show "findBestFlightOptions
        [\<lparr>info = ''A'', adj = [\<lparr>dest = ''C'', airline = ''Z'', distance = 50\<rparr>,
                                       \<lparr>dest = ''B'', airline = ''X'', distance = 500\<rparr>,
                                       \<lparr>dest = ''B'', airline = ''Y'', distance = 100\<rparr>]\<rparr>,
               \<lparr>info = ''B'', adj = []\<rparr>, \<lparr>info = ''C'', adj = []\<rparr>] ''A'' ''B''
        = Inr [[\<lparr>source = ''A'', target = ''B'', airlines = [''X'', ''Y'']\<rparr>]]"
    by (simp add: findBestFlightOptions_def shortestPathsBFS_def shortestPathSet_def
        findVertex_def discovered_def neighbours_def predecessors_def
        bfsLayers_Nil bfsLayers_Cons)
next
  show "findVertex
        [\<lparr>info = ''A'', adj = [\<lparr>dest = ''C'', airline = ''Z'', distance = 50\<rparr>,
                                       \<lparr>dest = ''B'', airline = ''X'', distance = 500\<rparr>,
                                       \<lparr>dest = ''B'', airline = ''Y'', distance = 100\<rparr>]\<rparr>,
               \<lparr>info = ''B'', adj = []\<rparr>, \<lparr>info = ''C'', adj = []\<rparr>] ''A''
        = Inr \<lparr>info = ''A'', adj = [\<lparr>dest = ''C'', airline = ''Z'', distance = 50\<rparr>,
                                       \<lparr>dest = ''B'', airline = ''X'', distance = 500\<rparr>,
                                       \<lparr>dest = ''B'', airline = ''Y'', distance = 100\<rparr>]\<rparr>"
    by (simp add: findVertex_def)
next
  show "find (\<lambda>edge. dest edge = ''B'')
        (adj \<lparr>info = ''A'', adj = [\<lparr>dest = ''C'', airline = ''Z'', distance = 50\<rparr>,
                                       \<lparr>dest = ''B'', airline = ''X'', distance = 500\<rparr>,
                                       \<lparr>dest = ''B'', airline = ''Y'', distance = 100\<rparr>]\<rparr>)
        = Some \<lparr>dest = ''B'', airline = ''X'', distance = 500\<rparr>"
    by simp
qed

text \<open>
  Claim C9, amended. In \<open>findSmallestDistance\<close> each hop of a candidate itinerary contributes
  the distance of the first edge of its source's adjacency list whose destination is the
  hop's target, whatever edges follow it, parallel ones of smaller distance among them; that
  edge is the edge of the first airline the hop lists. The total of the itinerary, from any
  total so far, is these contributions added in order, and from no hop it is the total so
  far. On the graph above the query from A to B returns \<^verbatim>\<open>0.0 + 500.0\<close>, not 100.
\<close>

theorem findSmallestDistance_first_edge:
  assumes "distinct (map info g)"
      and "findBestFlightOptions g s d = Inr options"
      and "it \<in> set options"
  shows "pathDistance add g tot it = Inr (foldl add tot (map (hopLength g) it))
       \<and> (\<forall>route\<in>set it. \<exists>src before edge after.
              findVertex g (source route) = Inr src
            \<and> adj src = before @ edge # after
            \<and> dest edge = target route
            \<and> (\<forall>e\<in>set before. dest e \<noteq> target route)
            \<and> hopLength g route = distance edge
            \<and> airlines route \<noteq> [] \<and> hd (airlines route) = airline edge)
       \<and> (add 0 500 = 500 \<longrightarrow>
            findSmallestDistance add
        \<lparr>airports = [''A'' \<mapsto> \<lparr>name = ''Alpha'', city = ''Porto'', country = ''Portugal''\<rparr>,
                     ''B'' \<mapsto> \<lparr>name = ''Bravo'', city = ''Lisbon'', country = ''Portugal''\<rparr>,
                     ''C'' \<mapsto> \<lparr>name = ''Charlie'', city = ''Madrid'', country = ''Spain''\<rparr>],
         flights = [\<lparr>info = ''A'', adj = [\<lparr>dest = ''C'', airline = ''Z'', distance = 50\<rparr>,
                                       \<lparr>dest = ''B'', airline = ''X'', distance = 500\<rparr>,
                                       \<lparr>dest = ''B'', airline = ''Y'', distance = 100\<rparr>]\<rparr>,
               \<lparr>info = ''B'', adj = []\<rparr>, \<lparr>info = ''C'', adj = []\<rparr>]\<rparr> ''A'' ''B'' = Inr 500)"
proof (intro conjI ballI impI)
  have "\<exists>src dst edge. findVertex g (source r) = Inr src \<and> findVertex g (target r) = Inr dst
          \<and> find (\<lambda>e. dest e = target r) (adj src) = Some edge"
    if "r \<in> set it" for r
    using option_hop [OF assms that] by blast
  then show "pathDistance add g tot it = Inr (foldl add tot (map (hopLength g) it))"
    by (rule pathDistance_sum)
next
  fix route
  assume r: "route \<in> set it"
  obtain src dst edge where v: "findVertex g (source route) = Inr src"
    and f: "find (\<lambda>e. dest e = target route) (adj src) = Some edge"
    and a: "airlines route = map airline (filter (\<lambda>e. dest e = target route) (adj src))"
    using option_hop [OF assms r] by blast
  obtain before after where b: "adj src = before @ edge # after" "dest edge = target route"
    "\<forall>y\<in>set before. dest y \<noteq> target route"
    using find_decompose [OF f] by blast
  have h: "hopLength g route = distance edge" by (simp add: hopLength_def v f)
  have n: "filter (\<lambda>e. dest e = target route) (adj src) \<noteq> []"
    and k: "hd (filter (\<lambda>e. dest e = target route) (adj src)) = edge"
    using find_hd_filter [OF f] by simp_all
  have "airlines route \<noteq> []" using a n by simp
  moreover have "hd (airlines route) = airline edge" using a n k by (simp add: hd_map)
  ultimately show "\<exists>src before edge after.
              findVertex g (source route) = Inr src
            \<and> adj src = before @ edge # after
            \<and> dest edge = target route
            \<and> (\<forall>e\<in>set before. dest e \<noteq> target route)
            \<and> hopLength g route = distance edge
            \<and> airlines route \<noteq> [] \<and> hd (airlines route) = airline edge"
    using v b h by blast
next
  assume a: "add 0 500 = 500"
  show "findSmallestDistance add
        \<lparr>airports = [''A'' \<mapsto> \<lparr>name = ''Alpha'', city = ''Porto'', country = ''Portugal''\<rparr>,
                     ''B'' \<mapsto> \<lparr>name = ''Bravo'', city = ''Lisbon'', country = ''Portugal''\<rparr>,
                     ''C'' \<mapsto> \<lparr>name = ''Charlie'', city = ''Madrid'', country = ''Spain''\<rparr>],
         flights = [\<lparr>info = ''A'', adj = [\<lparr>dest = ''C'', airline = ''Z'', distance = 50\<rparr>,
                                       \<lparr>dest = ''B'', airline = ''X'', distance = 500\<rparr>,
                                       \<lparr>dest = ''B'', airline = ''Y'', distance = 100\<rparr>]\<rparr>,
               \<lparr>info = ''B'', adj = []\<rparr>, \<lparr>info = ''C'', adj = []\<rparr>]\<rparr> ''A'' ''B'' = Inr 500"
    by (simp add: findSmallestDistance_def findBestFlightOptions_def shortestPathsBFS_def
        shortestPathSet_def findVertex_def discovered_def neighbours_def predecessors_def
        bfsLayers_Nil bfsLayers_Cons DBL_MAX_large printRoute_def a)
qed

theorem findSmallestDistance_first_edge_witness:
  "distinct (map info [\<lparr>info = ''A'', adj = [\<lparr>dest = ''C'', airline = ''Z'', distance = 50\<rparr>,
                                       \<lparr>dest = ''B'', airline = ''X'', distance = 500\<rparr>,
                                       \<lparr>dest = ''B'', airline = ''Y'', distance = 100\<rparr>]\<rparr>,
               \<lparr>info = ''B'', adj = []\<rparr>, \<lparr>info = ''C'', adj = []\<rparr>])
   \<and> findBestFlightOptions
        [\<lparr>info = ''A'', adj = [\<lparr>dest = ''C'', airline = ''Z'', distance = 50\<rparr>,
                                       \<lparr>dest = ''B'', airline = ''X'', distance = 500\<rparr>,
                                       \<lparr>dest = ''B'', airline = ''Y'', distance = 100\<rparr>]\<rparr>,
               \<lparr>info = ''B'', adj = []\<rparr>, \<lparr>info = ''C'', adj = []\<rparr>] ''A'' ''B''
        = Inr [[\<lparr>source = ''A'', target = ''B'', airlines = [''X'', ''Y'']\<rparr>]]
   \<and> hopLength
        [\<lparr>info = ''A'', adj = [\<lparr>dest = ''C'', airline = ''Z'', distance = 50\<rparr>,
                                       \<lparr>dest = ''B'', airline = ''X'', distance = 500\<rparr>,
                                       \<lparr>dest = ''B'', airline = ''Y'', distance = 100\<rparr>]\<rparr>,
               \<lparr>info = ''B'', adj = []\<rparr>, \<lparr>info = ''C'', adj = []\<rparr>]
        \<lparr>source = ''A'', target = ''B'', airlines = [''X'', ''Y'']\<rparr> = 500
   \<and> pathDistance (+)
        [\<lparr>info = ''A'', adj = [\<lparr>dest = ''C'', airline = ''Z'', distance = 50\<rparr>,
                                       \<lparr>dest = ''B'', airline = ''X'', distance = 500\<rparr>,
                                       \<lparr>dest = ''B'', airline = ''Y'', distance = 100\<rparr>]\<rparr>,
               \<lparr>info = ''B'', adj = []\<rparr>, \<lparr>info = ''C'', adj = []\<rparr>] 7
        [\<lparr>source = ''A'', target = ''B'', airlines = [''X'', ''Y'']\<rparr>] = Inr 507
   \<and> (0::real) + 500 = 500
   \<and> findSmallestDistance (+)
        \<lparr>airports = [''A'' \<mapsto> \<lparr>name = ''Alpha'', city = ''Porto'', country = ''Portugal''\<rparr>,
                     ''B'' \<mapsto> \<lparr>name = ''Bravo'', city = ''Lisbon'', country = ''Portugal''\<rparr>,
                     ''C'' \<mapsto> \<lparr>name = ''Charlie'', city = ''Madrid'', country = ''Spain''\<rparr>],
         flights = [\<lparr>info = ''A'', adj = [\<lparr>dest = ''C'', airline = ''Z'', distance = 50\<rparr>,
                                       \<lparr>dest = ''B'', airline = ''X'', distance = 500\<rparr>,
                                       \<lparr>dest = ''B'', airline = ''Y'', distance = 100\<rparr>]\<rparr>,
               \<lparr>info = ''B'', adj = []\<rparr>, \<lparr>info = ''C'', adj = []\<rparr>]\<rparr> ''A'' ''B'' = Inr 500"
proof -
  define g :: Graph where "g = [\<lparr>info = ''A'', adj = [\<lparr>dest = ''C'', airline = ''Z'', distance = 50\<rparr>,
                                       \<lparr>dest = ''B'', airline = ''X'', distance = 500\<rparr>,
                                       \<lparr>dest = ''B'', airline = ''Y'', distance = 100\<rparr>]\<rparr>,
               \<lparr>info = ''B'', adj = []\<rparr>, \<lparr>info = ''C'', adj = []\<rparr>]"
  define r where "r = \<lparr>source = ''A'', target = ''B'', airlines = [''X'', ''Y'']\<rparr>"
  have h1: "distinct (map info g)" by (simp add: g_def)
  have h2: "findBestFlightOptions g ''A'' ''B'' = Inr [[r]]"
    by (simp add: g_def r_def findBestFlightOptions_def shortestPathsBFS_def shortestPathSet_def
        findVertex_def discovered_def neighbours_def predecessors_def
        bfsLayers_Nil bfsLayers_Cons)
  have h3: "[r] \<in> set [[r]]" by simp
  have l: "hopLength g r = 500" by (simp add: g_def r_def hopLength_def findVertex_def)
  have z: "(0::real) + 500 = 500" by simp
  from findSmallestDistance_first_edge [OF h1 h2 h3, of "(+)" 7]
  have "pathDistance (+) g 7 [r] = Inr (foldl (+) 7 (map (hopLength g) [r]))" by blast
  then have p: "pathDistance (+) g 7 [r] = Inr 507" using l by simp
  from findSmallestDistance_first_edge [OF h1 h2 h3, of "(+)" 7] z
  have f: "findSmallestDistance (+)
        \<lparr>airports = [''A'' \<mapsto> \<lparr>name = ''Alpha'', city = ''Porto'', country = ''Portugal''\<rparr>,
                     ''B'' \<mapsto> \<lparr>name = ''Bravo'', city = ''Lisbon'', country = ''Portugal''\<rparr>,
                     ''C'' \<mapsto> \<lparr>name = ''Charlie'', city = ''Madrid'', country = ''Spain''\<rparr>],
         flights = [\<lparr>info = ''A'', adj = [\<lparr>dest = ''C'', airline = ''Z'', distance = 50\<rparr>,
                                       \<lparr>dest = ''B'', airline = ''X'', distance = 500\<rparr>,
                                       \<lparr>dest = ''B'', airline = ''Y'', distance = 100\<rparr>]\<rparr>,
               \<lparr>info = ''B'', adj = []\<rparr>, \<lparr>info = ''C'', adj = []\<rparr>]\<rparr> ''A'' ''B'' = Inr 500" by blast
  show ?thesis using h1 h2 l p z f unfolding g_def r_def by simp
qed

text \<open>
  Claim C10. When \<open>s\<close> or \<open>d\<close> is not a key of the airports table, \<open>findSmallestDistance\<close>
  returns \<^verbatim>\<open>0.0\<close>: a value, not a \<open>NotFound\<close> failure, different from the \<^verbatim>\<open>DBL_MAX\<close> returned
  when there is no path, and the same value a query with a genuine total of zero returns (from
  a present airport to itself). The guard is passed before any distance is added: the
  statement holds for every addition \<open>add\<close>.
\<close>

theorem findSmallestDistance_unknown_code:
  "(airports fms s = None \<or> airports fms d = None \<longrightarrow>
       findSmallestDistance add fms s d = Inr 0
       \<and> findSmallestDistance add fms s d \<noteq> Inl NotFound
       \<and> findSmallestDistance add fms s d \<noteq> Inr DBL_MAX)
   \<and> findSmallestDistance add
        \<lparr>airports = [''A'' \<mapsto> \<lparr>name = ''Alpha'', city = ''Porto'', country = ''Portugal''\<rparr>],
         flights = [\<lparr>info = ''A'', adj = []\<rparr>]\<rparr> ''A'' ''A'' = Inr 0"
proof (intro conjI impI)
  assume a: "airports fms s = None \<or> airports fms d = None"
  then show r: "findSmallestDistance add fms s d = Inr 0" by (auto simp: findSmallestDistance_def)
  then show "findSmallestDistance add fms s d \<noteq> Inl NotFound" by simp
  show "findSmallestDistance add fms s d \<noteq> Inr DBL_MAX" using r DBL_MAX_large(3) by simp
next
  show "findSmallestDistance add
        \<lparr>airports = [''A'' \<mapsto> \<lparr>name = ''Alpha'', city = ''Porto'', country = ''Portugal''\<rparr>],
         flights = [\<lparr>info = ''A'', adj = []\<rparr>]\<rparr> ''A'' ''A'' = Inr 0"
    by (simp add: findSmallestDistance_def findBestFlightOptions_def shortestPathsBFS_def
        shortestPathSet_def findVertex_def discovered_def neighbours_def predecessors_def
        bfsLayers_Nil bfsLayers_Cons DBL_MAX_large printRoute_def)
qed

theorem findSmallestDistance_unknown_code_witness:
  "(airports \<lparr>airports = [''A'' \<mapsto> \<lparr>name = ''Alpha'', city = ''Porto'', country = ''Portugal''\<rparr>],
              flights = [\<lparr>info = ''A'', adj = []\<rparr>]\<rparr> ''A'' = None
    \<or> airports \<lparr>airports = [''A'' \<mapsto> \<lparr>name = ''Alpha'', city = ''Porto'', country = ''Portugal''\<rparr>],
              flights = [\<lparr>info = ''A'', adj = []\<rparr>]\<rparr> ''Q'' = None)
   \<and> findSmallestDistance (+)
        \<lparr>airports = [''A'' \<mapsto> \<lparr>name = ''Alpha'', city = ''Porto'', country = ''Portugal''\<rparr>],
         flights = [\<lparr>info = ''A'', adj = []\<rparr>]\<rparr> ''A'' ''Q'' = Inr 0"
proof -
  define fms where "fms = \<lparr>airports = [''A'' \<mapsto> \<lparr>name = ''Alpha'', city = ''Porto'', country = ''Portugal''\<rparr>],
              flights = [\<lparr>info = ''A'', adj = []\<rparr>]\<rparr>"
  have h: "airports fms ''A'' = None \<or> airports fms ''Q'' = None" by (simp add: fms_def)
  from findSmallestDistance_unknown_code [of fms "''A''" "''Q''" "(+)"] h
  have "findSmallestDistance (+) fms ''A'' ''Q'' = Inr 0" by blast
  with h show ?thesis unfolding fms_def by (intro conjI)
qed

section \<open>The claim about absent airport codes\<close>

text \<open>
  Claim C2 has every query that looks up an airport code absent from the graph validate the
  vertex and fail with \<open>NotFound\<close>, rather than proceed on the missing vertex. The three
  queries \<open>getNumberOfFlightsFromAirport\<close>, \<open>getNumberOfAirlinesFromAirport\<close> and
  \<open>getNumberOfCountriesFromAirport\<close> do not: for every code that is the code of no vertex the
  lookup finds nothing, its result is not tested, and the statement that follows calls a
  member through it. The outcome is the use of a pointer to no vertex, not a \<open>NotFound\<close> of
  the query.
\<close>

theorem absent_code_is_dereferenced:
  assumes "airportCode \<notin> info ` set (flights fms)"
  shows "findVertex (flights fms) airportCode = Inl NotFound
       \<and> getNumberOfFlightsFromAirport fms airportCode = Inl BadDereference
       \<and> getNumberOfAirlinesFromAirport fms airportCode = Inl BadDereference
       \<and> getNumberOfCountriesFromAirport fms airportCode = Inl BadDereference"
  using findVertex_absent [OF assms]
  by (simp add: getNumberOfFlightsFromAirport_def getNumberOfAirlinesFromAirport_def
      getNumberOfCountriesFromAirport_def)

theorem absent_code_is_dereferenced_witness:
  "''Q'' \<notin> info ` set (flights
       \<lparr>airports = [''A'' \<mapsto> \<lparr>name = ''Alpha'', city = ''Porto'', country = ''Portugal''\<rparr>],
        flights = [\<lparr>info = ''A'', adj = [\<lparr>dest = ''A'', airline = ''X'', distance = 0\<rparr>]\<rparr>]\<rparr>)
   \<and> getNumberOfFlightsFromAirport
       \<lparr>airports = [''A'' \<mapsto> \<lparr>name = ''Alpha'', city = ''Porto'', country = ''Portugal''\<rparr>],
        flights = [\<lparr>info = ''A'', adj = [\<lparr>dest = ''A'', airline = ''X'', distance = 0\<rparr>]\<rparr>]\<rparr> ''Q'' = Inl BadDereference
   \<and> getNumberOfFlightsFromAirport
       \<lparr>airports = [''A'' \<mapsto> \<lparr>name = ''Alpha'', city = ''Porto'', country = ''Portugal''\<rparr>],
        flights = [\<lparr>info = ''A'', adj = [\<lparr>dest = ''A'', airline = ''X'', distance = 0\<rparr>]\<rparr>]\<rparr> ''Q'' \<noteq> Inl NotFound
   \<and> getNumberOfAirlinesFromAirport
       \<lparr>airports = [''A'' \<mapsto> \<lparr>name = ''Alpha'', city = ''Porto'', country = ''Portugal''\<rparr>],
        flights = [\<lparr>info = ''A'', adj = [\<lparr>dest = ''A'', airline = ''X'', distance = 0\<rparr>]\<rparr>]\<rparr> ''Q'' = Inl BadDereference
   \<and> getNumberOfCountriesFromAirport
       \<lparr>airports = [''A'' \<mapsto> \<lparr>name = ''Alpha'', city = ''Porto'', country = ''Portugal''\<rparr>],
        flights = [\<lparr>info = ''A'', adj = [\<lparr>dest = ''A'', airline = ''X'', distance = 0\<rparr>]\<rparr>]\<rparr> ''Q'' = Inl BadDereference
   \<and> getNumberOfFlightsFromAirport
       \<lparr>airports = [''A'' \<mapsto> \<lparr>name = ''Alpha'', city = ''Porto'', country = ''Portugal''\<rparr>],
        flights = [\<lparr>info = ''A'', adj = [\<lparr>dest = ''A'', airline = ''X'', distance = 0\<rparr>]\<rparr>]\<rparr> ''A'' = Inr 1"
proof -
  define fms where "fms = \<lparr>airports = [''A'' \<mapsto> \<lparr>name = ''Alpha'', city = ''Porto'', country = ''Portugal''\<rparr>],
        flights = [\<lparr>info = ''A'', adj = [\<lparr>dest = ''A'', airline = ''X'', distance = 0\<rparr>]\<rparr>]\<rparr>"
  have h: "''Q'' \<notin> info ` set (flights fms)" by (simp add: fms_def)
  have t: "getNumberOfFlightsFromAirport fms ''Q'' = Inl BadDereference
       \<and> getNumberOfAirlinesFromAirport fms ''Q'' = Inl BadDereference
       \<and> getNumberOfCountriesFromAirport fms ''Q'' = Inl BadDereference"
    using absent_code_is_dereferenced [OF h] by blast
  then have n: "getNumberOfFlightsFromAirport fms ''Q'' \<noteq> Inl NotFound" by simp
  have p: "getNumberOfFlightsFromAirport fms ''A'' = Inr 1"
    by (simp add: fms_def getNumberOfFlightsFromAirport_def findVertex_def)
  show ?thesis using h t n p unfolding fms_def by (intro conjI) simp_all
qed

section \<open>The claim about the reachable destinations\<close>




end
